theory Spec2Isabelle
  imports Complex_Main
begin

section \<open>JavaScript values and strings\<close>

text \<open>
  A JavaScript string is a sequence of UTF-16 code units; \<open>length\<close> counts code units, as
  the \<open>length\<close> property does. Request bodies and parsed model replies are JSON values;
  \<open>JUndefined\<close> is what reading a missing property gives. Numbers are modelled by their
  exact rational value (rounding to a double above \<open>2^53\<close> is outside the model).
\<close>

type_synonym jschar = nat
type_synonym jsstring = "jschar list"

definition js :: "string \<Rightarrow> jsstring" where
  "js s = map of_char s"

datatype jsval =
    JUndefined
  | JNull
  | JBool bool
  | JNum rat
  | JStr jsstring
  | JArr "jsval list"
  | JObj "(jsstring \<times> jsval) list"

datatype exn = TypeError | SyntaxError

text \<open>\<open>!v\<close> is \<open>\<not> truthy v\<close>.\<close>

fun truthy :: "jsval \<Rightarrow> bool" where
  "truthy JUndefined = False"
| "truthy JNull = False"
| "truthy (JBool b) = b"
| "truthy (JNum q) = (q \<noteq> 0)"
| "truthy (JStr s) = (s \<noteq> [])"
| "truthy (JArr xs) = True"
| "truthy (JObj fs) = True"

text \<open>
  \<open>body.k\<close> for the property names the handlers read (\<open>title\<close>, \<open>description\<close>,
  \<open>status\<close>, \<open>priority\<close>, \<open>parent_id\<close>), none of which is a built-in property of a
  string, an array, a number or a boolean. Reading a property of \<open>undefined\<close> or \<open>null\<close>
  throws; \<open>nullish\<close> is tested before \<open>field\<close> is used.
\<close>

fun nullish :: "jsval \<Rightarrow> bool" where
  "nullish JUndefined = True"
| "nullish JNull = True"
| "nullish _ = False"

fun field :: "jsval \<Rightarrow> jsstring \<Rightarrow> jsval" where
  "field (JObj fs) k = (case map_of fs k of None \<Rightarrow> JUndefined | Some v \<Rightarrow> v)"
| "field _ k = JUndefined"

text \<open>White space as \<open>String.prototype.trim\<close>, \<open>\s\<close> and \<open>parseInt\<close> see it.\<close>

definition is_ws :: "jschar \<Rightarrow> bool" where
  "is_ws c \<longleftrightarrow>
     c = 9 \<or> c = 10 \<or> c = 11 \<or> c = 12 \<or> c = 13 \<or> c = 32 \<or> c = 160 \<or> c = 5760 \<or>
     (8192 \<le> c \<and> c \<le> 8202) \<or> c = 8232 \<or> c = 8233 \<or> c = 8239 \<or> c = 8287 \<or>
     c = 12288 \<or> c = 65279"

definition trim :: "jsstring \<Rightarrow> jsstring" where
  "trim s = rev (dropWhile is_ws (rev (dropWhile is_ws s)))"

text \<open>\<open>Number.isInteger\<close> on a number.\<close>

definition isInteger :: "rat \<Rightarrow> bool" where
  "isInteger q \<longleftrightarrow> of_int \<lfloor>q\<rfloor> = q"

subsection \<open>parseInt without a radix\<close>

definition digit_val :: "nat \<Rightarrow> jschar \<Rightarrow> nat option" where
  "digit_val R c =
     (let v = (if 48 \<le> c \<and> c \<le> 57 then Some (c - 48)
               else if 97 \<le> c \<and> c \<le> 122 then Some (c - 87)
               else if 65 \<le> c \<and> c \<le> 90 then Some (c - 55)
               else None)
      in case v of None \<Rightarrow> None | Some d \<Rightarrow> if d < R then Some d else None)"

text \<open>
  The steps of the language's \<open>parseInt(string)\<close>: skip leading white space, read a sign,
  switch to radix 16 after \<open>0x\<close> or \<open>0X\<close>, take the longest prefix of digits, and give
  \<open>NaN\<close> (here \<open>None\<close>) when that prefix is empty. Whatever follows the digits is ignored.
  The value is the exact integer, which is the value of the language below \<open>2^53\<close>; above
  it the language gives the nearest double.
\<close>

definition parseInt :: "jsstring \<Rightarrow> int option" where
  "parseInt inputString =
     (let S = dropWhile is_ws inputString;
          sign = (if S \<noteq> [] \<and> hd S = 45 then - 1 else 1 :: int);
          S = (if S \<noteq> [] \<and> (hd S = 43 \<or> hd S = 45) then tl S else S);
          hex = (2 \<le> length S \<and> S ! 0 = 48 \<and> (S ! 1 = 120 \<or> S ! 1 = 88));
          R = (if hex then 16 else 10);
          S = (if hex then drop 2 S else S);
          Z = takeWhile (\<lambda>c. digit_val R c \<noteq> None) S
      in if Z = [] then None
         else Some (sign * int (foldl (\<lambda>a c. a * R + the (digit_val R c)) 0 Z)))"

section \<open>Task data (types/task.ts)\<close>

datatype TaskStatus = pending | completed

datatype TaskPriority = low | medium | high

record Task =
  task_id :: int
  title :: jsstring
  description :: "jsstring option"
  status :: TaskStatus
  priority :: TaskPriority
  parent_id :: "int option"
  created_at :: nat

text \<open>
  \<open>Partial<Task>\<close> as \<open>validateUpdateRequest\<close> fills it: a field is \<open>None\<close> while its key
  is not set; \<open>description\<close> and \<open>parent_id\<close> can be set to \<open>null\<close>.
\<close>

record updateData =
  u_title :: "jsstring option"
  u_description :: "jsstring option option"
  u_status :: "TaskStatus option"
  u_priority :: "TaskPriority option"
  u_parent_id :: "int option option"

definition empty_update :: updateData where
  "empty_update = \<lparr>u_title = None, u_description = None, u_status = None,
     u_priority = None, u_parent_id = None\<rparr>"

text \<open>\<open>Object.keys(updateData).length === 0\<close>.\<close>

definition no_keys :: "updateData \<Rightarrow> bool" where
  "no_keys u \<longleftrightarrow> u_title u = None \<and> u_description u = None \<and> u_status u = None \<and>
     u_priority u = None \<and> u_parent_id u = None"

section \<open>Task validator\<close>

text \<open>The validation messages, one constructor per message text of the source.\<close>

datatype message =
    Title_required
  | Title_not_string
  | Title_empty
  | Title_too_long
  | Description_not_string
  | Description_not_string_or_null
  | Description_too_long
  | Status_invalid
  | Priority_invalid
  | Parent_id_not_integer
  | Parent_id_not_integer_or_null

text \<open>\<open>validStatuses.includes(v)\<close> and \<open>validPriorities.includes(v)\<close>, with the member found.\<close>

definition status_of :: "jsval \<Rightarrow> TaskStatus option" where
  "status_of v = (case v of
       JStr s \<Rightarrow> if s = js ''pending'' then Some pending
                 else if s = js ''completed'' then Some completed else None
     | _ \<Rightarrow> None)"

definition priority_of :: "jsval \<Rightarrow> TaskPriority option" where
  "priority_of v = (case v of
       JStr s \<Rightarrow> if s = js ''low'' then Some low
                 else if s = js ''medium'' then Some medium
                 else if s = js ''high'' then Some high else None
     | _ \<Rightarrow> None)"

text \<open>\<open>typeof v !== 'number' || !Number.isInteger(v)\<close>.\<close>

definition not_integer_number :: "jsval \<Rightarrow> bool" where
  "not_integer_number v = (case v of JNum q \<Rightarrow> \<not> isInteger q | _ \<Rightarrow> True)"

text \<open>
  \<open>validateCreateRequest\<close> (the index handler). The function is a sequence of five
  blocks, one per field, each pushing onto \<open>errors\<close>; every block is a step from the list
  of errors so far to the extended list, and the function runs the steps in the order
  of the source.
\<close>

definition create_title :: "jsval \<Rightarrow> message list \<Rightarrow> message list" where
  "create_title body errors =
     (case field body (js ''title'') of
        JStr t \<Rightarrow>
          if t = [] then errors @ [Title_required]
          else if length (trim t) = 0 then errors @ [Title_empty]
          else if length t > 200 then errors @ [Title_too_long]
          else errors
      | _ \<Rightarrow> errors @ [Title_required])"

definition create_description :: "jsval \<Rightarrow> message list \<Rightarrow> message list" where
  "create_description body errors =
     (case field body (js ''description'') of
        JUndefined \<Rightarrow> errors
      | JNull \<Rightarrow> errors
      | JStr d \<Rightarrow> if length d > 1000 then errors @ [Description_too_long] else errors
      | _ \<Rightarrow> errors @ [Description_not_string])"

definition create_status :: "jsval \<Rightarrow> message list \<Rightarrow> message list" where
  "create_status body errors =
     (if field body (js ''status'') \<noteq> JUndefined
      then (if status_of (field body (js ''status'')) = None
            then errors @ [Status_invalid] else errors)
      else errors)"

definition create_priority :: "jsval \<Rightarrow> message list \<Rightarrow> message list" where
  "create_priority body errors =
     (if field body (js ''priority'') \<noteq> JUndefined
      then (if priority_of (field body (js ''priority'')) = None
            then errors @ [Priority_invalid] else errors)
      else errors)"

definition create_parent_id :: "jsval \<Rightarrow> message list \<Rightarrow> message list" where
  "create_parent_id body errors =
     (if field body (js ''parent_id'') \<noteq> JUndefined \<and> field body (js ''parent_id'') \<noteq> JNull
      then (if not_integer_number (field body (js ''parent_id''))
            then errors @ [Parent_id_not_integer] else errors)
      else errors)"

definition validateCreateRequest :: "jsval \<Rightarrow> exn + message list" where
  "validateCreateRequest body =
     (if nullish body then Inl TypeError
      else Inr (fold (\<lambda>block errors. block body errors)
                  [create_title, create_description, create_status, create_priority,
                   create_parent_id] []))"

text \<open>
  \<open>validateUpdateRequest\<close> (the \<open>[id]\<close> handler): the same five blocks, on the pair of
  \<open>errors\<close> and \<open>updateData\<close>.
\<close>

type_synonym validation = "message list \<times> updateData"

definition update_title :: "jsval \<Rightarrow> validation \<Rightarrow> validation" where
  "update_title body v =
     (case v of (errors, upd) \<Rightarrow>
        (case field body (js ''title'') of
           JUndefined \<Rightarrow> (errors, upd)
         | JStr t \<Rightarrow>
             if length (trim t) = 0 then (errors @ [Title_empty], upd)
             else if length t > 200 then (errors @ [Title_too_long], upd)
             else (errors, upd\<lparr>u_title := Some (trim t)\<rparr>)
         | _ \<Rightarrow> (errors @ [Title_not_string], upd)))"

definition update_description :: "jsval \<Rightarrow> validation \<Rightarrow> validation" where
  "update_description body v =
     (case v of (errors, upd) \<Rightarrow>
        (case field body (js ''description'') of
           JUndefined \<Rightarrow> (errors, upd)
         | JNull \<Rightarrow> (errors, upd\<lparr>u_description := Some None\<rparr>)
         | JStr d \<Rightarrow>
             if d \<noteq> [] \<and> length d > 1000 then (errors @ [Description_too_long], upd)
             else (errors, upd\<lparr>u_description :=
                     Some (if trim d = [] then None else Some (trim d))\<rparr>)
         | _ \<Rightarrow> (errors @ [Description_not_string_or_null], upd)))"

definition update_status :: "jsval \<Rightarrow> validation \<Rightarrow> validation" where
  "update_status body v =
     (case v of (errors, upd) \<Rightarrow>
        if field body (js ''status'') \<noteq> JUndefined
        then (case status_of (field body (js ''status'')) of
                None \<Rightarrow> (errors @ [Status_invalid], upd)
              | Some s \<Rightarrow> (errors, upd\<lparr>u_status := Some s\<rparr>))
        else (errors, upd))"

definition update_priority :: "jsval \<Rightarrow> validation \<Rightarrow> validation" where
  "update_priority body v =
     (case v of (errors, upd) \<Rightarrow>
        if field body (js ''priority'') \<noteq> JUndefined
        then (case priority_of (field body (js ''priority'')) of
                None \<Rightarrow> (errors @ [Priority_invalid], upd)
              | Some p \<Rightarrow> (errors, upd\<lparr>u_priority := Some p\<rparr>))
        else (errors, upd))"

definition update_parent_id :: "jsval \<Rightarrow> validation \<Rightarrow> validation" where
  "update_parent_id body v =
     (case v of (errors, upd) \<Rightarrow>
        (case field body (js ''parent_id'') of
           JUndefined \<Rightarrow> (errors, upd)
         | JNull \<Rightarrow> (errors, upd\<lparr>u_parent_id := Some None\<rparr>)
         | JNum q \<Rightarrow>
             if isInteger q then (errors, upd\<lparr>u_parent_id := Some (Some \<lfloor>q\<rfloor>)\<rparr>)
             else (errors @ [Parent_id_not_integer_or_null], upd)
         | _ \<Rightarrow> (errors @ [Parent_id_not_integer_or_null], upd)))"

definition validateUpdateRequest :: "jsval \<Rightarrow> exn + validation" where
  "validateUpdateRequest body =
     (if nullish body then Inl TypeError
      else Inr (fold (\<lambda>block v. block body v)
                  [update_title, update_description, update_status, update_priority,
                   update_parent_id] ([], empty_update)))"

section \<open>The task store\<close>

text \<open>
  The external store, as supabase-schema.sql declares the \<open>tasks\<close> table and as the client
  library answers: every call returns a pair of data and error. A call can fail for
  reasons outside the program; \<open>faults\<close> scripts that: each call takes the head of the
  list, and \<open>Some m\<close> makes it fail with the message \<open>m\<close> and no effect. \<open>calls\<close> is the log
  of the calls issued, oldest first.
\<close>

datatype store_error = No_rows | Failure string

record new_task =
  n_title :: jsstring
  n_description :: "jsstring option"
  n_status :: TaskStatus
  n_priority :: TaskPriority
  n_parent_id :: "int option"

datatype store_call =
    Select_single int
  | Select_malformed rat
  | Select_children int
  | Update_call int updateData
  | Delete_call int
  | Insert_call "new_task list"

record store =
  rows :: "Task list"
  next_id :: int
  clock :: nat
  faults :: "string option list"
  calls :: "store_call list"

definition issue :: "store_call \<Rightarrow> store \<Rightarrow> string option \<times> store" where
  "issue c st =
     (case faults st of
        [] \<Rightarrow> (None, st\<lparr>calls := calls st @ [c]\<rparr>)
      | f # fs \<Rightarrow> (f, st\<lparr>faults := fs, calls := calls st @ [c]\<rparr>))"

text \<open>
  \<open>.select(...).eq('id', k).single()\<close>: exactly one row, or the error with code
  \<open>PGRST116\<close> (\<open>No_rows\<close>).
\<close>

definition select_single :: "int \<Rightarrow> store \<Rightarrow> (store_error + Task) \<times> store" where
  "select_single k st =
     (let (f, st) = issue (Select_single k) st
      in case f of
           Some m \<Rightarrow> (Inl (Failure m), st)
         | None \<Rightarrow>
             (case filter (\<lambda>r. task_id r = k) (rows st) of
                [r] \<Rightarrow> (Inr r, st)
              | _ \<Rightarrow> (Inl No_rows, st)))"

text \<open>\<open>.select('*').eq('parent_id', k).order('created_at', {ascending: true})\<close>.\<close>

definition select_children :: "int \<Rightarrow> store \<Rightarrow> (store_error + Task list) \<times> store" where
  "select_children k st =
     (let (f, st) = issue (Select_children k) st
      in case f of
           Some m \<Rightarrow> (Inl (Failure m), st)
         | None \<Rightarrow>
             (Inr (sort_key created_at (filter (\<lambda>r. parent_id r = Some k) (rows st))), st))"

definition apply_update :: "updateData \<Rightarrow> Task \<Rightarrow> Task" where
  "apply_update u r =
     r\<lparr>title := (case u_title u of None \<Rightarrow> title r | Some t \<Rightarrow> t),
       description := (case u_description u of None \<Rightarrow> description r | Some d \<Rightarrow> d),
       status := (case u_status u of None \<Rightarrow> status r | Some s \<Rightarrow> s),
       priority := (case u_priority u of None \<Rightarrow> priority r | Some p \<Rightarrow> p),
       parent_id := (case u_parent_id u of None \<Rightarrow> parent_id r | Some p \<Rightarrow> p)\<rparr>"

text \<open>The foreign key of \<open>parent_id\<close>: a non-null value references an existing row.\<close>

definition fk_ok :: "int option \<Rightarrow> Task list \<Rightarrow> bool" where
  "fk_ok p rs = (case p of None \<Rightarrow> True | Some k \<Rightarrow> k \<in> set (map task_id rs))"

text \<open>
  \<open>.update(updateData).eq('id', k).select()\<close>: the rows changed, as they are afterwards.
  The foreign key is checked on the rows that change.
\<close>

definition update_rows :: "int \<Rightarrow> updateData \<Rightarrow> store \<Rightarrow> (store_error + Task list) \<times> store" where
  "update_rows k u st =
     (let (f, st) = issue (Update_call k u) st
      in case f of
           Some m \<Rightarrow> (Inl (Failure m), st)
         | None \<Rightarrow>
             (let hit = filter (\<lambda>r. task_id r = k) (rows st)
              in if hit \<noteq> [] \<and> (case u_parent_id u of None \<Rightarrow> False
                                  | Some p \<Rightarrow> \<not> fk_ok p (rows st))
                 then (Inl (Failure ''foreign key violation''), st)
                 else (Inr (map (apply_update u) hit),
                       st\<lparr>rows := map (\<lambda>r. if task_id r = k then apply_update u r else r)
                                     (rows st)\<rparr>)))"

text \<open>
  \<open>ON DELETE CASCADE\<close>: after the rows in \<open>dead\<close> are gone, the rows whose parent is one of
  them go too, and so on.
\<close>

definition child_of :: "int list \<Rightarrow> Task \<Rightarrow> bool" where
  "child_of dead r = (case parent_id r of None \<Rightarrow> False | Some p \<Rightarrow> p \<in> set dead)"

function cascade :: "int list \<Rightarrow> Task list \<Rightarrow> Task list" where
  "cascade dead rs =
     (if filter (child_of dead) rs = [] then rs
      else cascade (map task_id (filter (child_of dead) rs))
                   (filter (\<lambda>r. \<not> child_of dead r) rs))"
  by pat_completeness auto

termination cascade
proof (relation "measure (\<lambda>(dead, rs). length rs)")
  show "wf (measure (\<lambda>(dead, rs). length rs))" by simp
next
  fix dead :: "int list" and rs :: "Task list"
  assume "filter (child_of dead) rs \<noteq> []"
  then have "0 < length (filter (child_of dead) rs)" by simp
  moreover have "length (filter (child_of dead) rs)
      + length (filter (\<lambda>r. \<not> child_of dead r) rs) = length rs"
    by (rule sum_length_filter_compl)
  ultimately have "length (filter (\<lambda>r. \<not> child_of dead r) rs) < length rs" by linarith
  then show "((map task_id (filter (child_of dead) rs), filter (\<lambda>r. \<not> child_of dead r) rs),
              (dead, rs)) \<in> measure (\<lambda>(dead, rs). length rs)"
    by simp
qed

declare cascade.simps [simp del]

text \<open>\<open>.delete().eq('id', k)\<close>.\<close>

definition delete_rows :: "int \<Rightarrow> store \<Rightarrow> store_error option \<times> store" where
  "delete_rows k st =
     (let (f, st) = issue (Delete_call k) st
      in case f of
           Some m \<Rightarrow> (Some (Failure m), st)
         | None \<Rightarrow>
             (None, st\<lparr>rows := cascade [k] (filter (\<lambda>r. task_id r \<noteq> k) (rows st))\<rparr>))"

text \<open>
  \<open>.insert(list).select()\<close>: one new row per element, with consecutive ids and the time
  of the statement, or no row at all.
\<close>

fun new_rows :: "int \<Rightarrow> nat \<Rightarrow> new_task list \<Rightarrow> Task list" where
  "new_rows i t [] = []"
| "new_rows i t (n # ns) =
     \<lparr>task_id = i, title = n_title n, description = n_description n, status = n_status n,
      priority = n_priority n, parent_id = n_parent_id n, created_at = t\<rparr>
     # new_rows (i + 1) t ns"

definition insert_rows :: "new_task list \<Rightarrow> store \<Rightarrow> (store_error + Task list) \<times> store" where
  "insert_rows ns st =
     (let (f, st) = issue (Insert_call ns) st
      in case f of
           Some m \<Rightarrow> (Inl (Failure m), st)
         | None \<Rightarrow>
             if \<exists>n \<in> set ns. \<not> fk_ok (n_parent_id n) (rows st)
             then (Inl (Failure ''foreign key violation''), st)
             else (let created = new_rows (next_id st) (clock st) ns
                   in (Inr created,
                       st\<lparr>rows := rows st @ created,
                          next_id := next_id st + int (length ns),
                          clock := clock st + 1\<rparr>)))"

section \<open>The handler of /api/tasks/[id]\<close>

datatype http_method = GET | POST | PATCH | DELETE | Other_method string

datatype query_param = Absent | Single jsstring | Multiple "jsstring list"

record request =
  req_method :: http_method
  query_id :: query_param
  body :: jsval

text \<open>
  The response envelope with its status code and the \<open>Allow\<close> header. The error texts
  are constructors; \<open>Joined\<close> is \<open>errors.join('; ')\<close>.
\<close>

datatype resp_error =
    Joined "message list"
  | Invalid_id
  | Task_not_found
  | Fetch_failed store_error
  | No_fields
  | Self_parent
  | Parent_not_found
  | Cyclic_parent
  | Update_failed store_error
  | Delete_failed store_error
  | Method_not_supported http_method
  | Server_error

text \<open>
  What the three methods return: the task with its \<open>subtasks\<close>, the updated row, or the
  deletion message with \<open>deleted\<close>, which holds the two columns the existence check
  selected (\<open>select('id, title')\<close>).
\<close>

datatype resp_data =
    Task_with_subtasks Task "Task list"
  | Updated_task Task
  | Deleted_task int jsstring

record ('d, 'e) response =
  http_status :: nat
  success :: bool
  data :: "'d option"
  error :: "'e option"
  allow :: "http_method list"

definition successResponse :: "'d \<Rightarrow> nat \<Rightarrow> ('d, 'e) response" where
  "successResponse d code =
     \<lparr>http_status = code, success = True, data = Some d, error = None, allow = []\<rparr>"

definition errorResponse :: "'e \<Rightarrow> nat \<Rightarrow> ('d, 'e) response" where
  "errorResponse m code =
     \<lparr>http_status = code, success = False, data = None, error = Some m, allow = []\<rparr>"

definition validateId :: "query_param \<Rightarrow> int option" where
  "validateId i =
     (case i of
        Absent \<Rightarrow> None
      | Multiple _ \<Rightarrow> None
      | Single s \<Rightarrow>
          if s = [] then None
          else (case parseInt s of
                  None \<Rightarrow> None
                | Some numId \<Rightarrow> if numId \<le> 0 then None else Some numId))"

definition handler_GET :: "int \<Rightarrow> store \<Rightarrow> (resp_data, resp_error) response \<times> store" where
  "handler_GET taskId st =
     (let (r, st) = select_single taskId st
      in case r of
           Inl No_rows \<Rightarrow> (errorResponse Task_not_found 404, st)
         | Inl e \<Rightarrow> (errorResponse (Fetch_failed e) 500, st)
         | Inr task \<Rightarrow>
             (let (c, st) = select_children taskId st;
                  subtasks = (case c of Inl _ \<Rightarrow> [] | Inr ts \<Rightarrow> ts)
              in (successResponse (Task_with_subtasks task subtasks) 200, st)))"

definition do_update :: "int \<Rightarrow> updateData \<Rightarrow> store \<Rightarrow> (resp_data, resp_error) response \<times> store" where
  "do_update taskId upd st =
     (let (r, st) = update_rows taskId upd st
      in case r of
           Inl e \<Rightarrow> (errorResponse (Update_failed e) 500, st)
         | Inr [] \<Rightarrow> (errorResponse Task_not_found 404, st)
         | Inr (t # _) \<Rightarrow> (successResponse (Updated_task t) 200, st))"

definition handler_PATCH :: "int \<Rightarrow> jsval \<Rightarrow> store \<Rightarrow> (resp_data, resp_error) response \<times> store" where
  "handler_PATCH taskId b st =
     (case validateUpdateRequest b of
        Inl _ \<Rightarrow> (errorResponse Server_error 500, st)
      | Inr (errors, upd) \<Rightarrow>
          if length errors > 0 then (errorResponse (Joined errors) 400, st)
          else if no_keys upd then (errorResponse No_fields 400, st)
          else if u_parent_id upd = Some (Some taskId)
          then (errorResponse Self_parent 400, st)
          else (case u_parent_id upd of
                  Some (Some p) \<Rightarrow>
                    if p \<noteq> 0
                    then (let (r, st) = select_single p st
                          in case r of
                               Inl _ \<Rightarrow> (errorResponse Parent_not_found 400, st)
                             | Inr parentTask \<Rightarrow>
                                 if parent_id parentTask = Some taskId
                                 then (errorResponse Cyclic_parent 400, st)
                                 else do_update taskId upd st)
                    else do_update taskId upd st
                | _ \<Rightarrow> do_update taskId upd st))"

definition handler_DELETE :: "int \<Rightarrow> store \<Rightarrow> (resp_data, resp_error) response \<times> store" where
  "handler_DELETE taskId st =
     (let (r, st) = select_single taskId st
      in case r of
           Inl _ \<Rightarrow> (errorResponse Task_not_found 404, st)
         | Inr existingTask \<Rightarrow>
             (let (e, st) = delete_rows taskId st
              in case e of
                   Some err \<Rightarrow> (errorResponse (Delete_failed err) 500, st)
                 | None \<Rightarrow>
                     (successResponse
                        (Deleted_task (task_id existingTask) (title existingTask)) 200, st)))"

definition handler :: "request \<Rightarrow> store \<Rightarrow> (resp_data, resp_error) response \<times> store" where
  "handler req st =
     (case validateId (query_id req) of
        None \<Rightarrow> (errorResponse Invalid_id 400, st)
      | Some taskId \<Rightarrow>
          if req_method req = GET then handler_GET taskId st
          else if req_method req = PATCH then handler_PATCH taskId (body req) st
          else if req_method req = DELETE then handler_DELETE taskId st
          else ((errorResponse (Method_not_supported (req_method req)) 405)
                  \<lparr>allow := [GET, PATCH, DELETE]\<rparr>, st))"

text \<open>
  The calls issued between two states of the store, and the calls among them that write.
\<close>

definition issued :: "store \<Rightarrow> store \<Rightarrow> store_call list" where
  "issued st st' = drop (length (calls st)) (calls st')"

fun is_write :: "store_call \<Rightarrow> bool" where
  "is_write (Select_single k) = False"
| "is_write (Select_malformed q) = False"
| "is_write (Select_children k) = False"
| "is_write (Update_call k u) = True"
| "is_write (Delete_call k) = True"
| "is_write (Insert_call ns) = True"

section \<open>JSON.parse\<close>

text \<open>
  The language's \<open>JSON.parse\<close> on the JSON grammar: the four white space characters,
  \<open>null\<close>, \<open>true\<close>, \<open>false\<close>, numbers, strings with their escapes, arrays and objects.
  A syntax error is \<open>None\<close>. The parsers of nested values take a fuel argument; each
  call on a nested value or on the next element uses one unit.
\<close>

definition json_ws :: "jschar \<Rightarrow> bool" where
  "json_ws c \<longleftrightarrow> c = 32 \<or> c = 9 \<or> c = 10 \<or> c = 13"

definition skip_ws :: "jsstring \<Rightarrow> jsstring" where
  "skip_ws s = dropWhile json_ws s"

definition is_digit :: "jschar \<Rightarrow> bool" where
  "is_digit c \<longleftrightarrow> 48 \<le> c \<and> c \<le> 57"

definition digits_val :: "jsstring \<Rightarrow> nat" where
  "digits_val ds = foldl (\<lambda>a c. a * 10 + (c - 48)) 0 ds"

text \<open>The characters of a string after its opening quote, up to the closing quote.\<close>

fun parse_chars :: "jsstring \<Rightarrow> jsstring \<Rightarrow> (jsstring \<times> jsstring) option" where
  "parse_chars acc [] = None"
| "parse_chars acc (c # cs) =
     (if c = 34 then Some (rev acc, cs)
      else if c < 32 then None
      else if c = 92 then
        (case cs of
           [] \<Rightarrow> None
         | e # es \<Rightarrow>
             if e = 34 then parse_chars (34 # acc) es
             else if e = 92 then parse_chars (92 # acc) es
             else if e = 47 then parse_chars (47 # acc) es
             else if e = 98 then parse_chars (8 # acc) es
             else if e = 102 then parse_chars (12 # acc) es
             else if e = 110 then parse_chars (10 # acc) es
             else if e = 114 then parse_chars (13 # acc) es
             else if e = 116 then parse_chars (9 # acc) es
             else if e = 117 then
               (case es of
                  h1 # h2 # h3 # h4 # rest \<Rightarrow>
                    (case (digit_val 16 h1, digit_val 16 h2, digit_val 16 h3, digit_val 16 h4) of
                       (Some a, Some b, Some c, Some d) \<Rightarrow>
                         parse_chars ((((a * 16 + b) * 16 + c) * 16 + d) # acc) rest
                     | _ \<Rightarrow> None)
                | _ \<Rightarrow> None)
             else None)
      else parse_chars (c # acc) cs)"

text \<open>
  A number: an optional minus, an integer part without a leading zero, an optional
  fraction and an optional exponent; its value is exact.
\<close>

definition parse_exponent :: "jsstring \<Rightarrow> (int \<times> jsstring) option" where
  "parse_exponent s =
     (case s of
        [] \<Rightarrow> Some (0, s)
      | c # cs \<Rightarrow>
          if c = 101 \<or> c = 69 then
            (let neg = (cs \<noteq> [] \<and> hd cs = 45);
                 ds = (if cs \<noteq> [] \<and> (hd cs = 45 \<or> hd cs = 43) then tl cs else cs)
             in if takeWhile is_digit ds = [] then None
                else Some ((if neg then - 1 else 1) * int (digits_val (takeWhile is_digit ds)),
                           dropWhile is_digit ds))
          else Some (0, s))"

definition parse_fraction :: "jsstring \<Rightarrow> (jsstring \<times> jsstring) option" where
  "parse_fraction s =
     (case s of
        [] \<Rightarrow> Some ([], s)
      | c # cs \<Rightarrow>
          if c = 46 then
            (if takeWhile is_digit cs = [] then None
             else Some (takeWhile is_digit cs, dropWhile is_digit cs))
          else Some ([], s))"

definition parse_number :: "jsstring \<Rightarrow> (rat \<times> jsstring) option" where
  "parse_number s =
     (let neg = (s \<noteq> [] \<and> hd s = 45);
          s1 = (if neg then tl s else s);
          ip = takeWhile is_digit s1
      in if ip = [] \<or> (1 < length ip \<and> hd ip = 48) then None
         else (case parse_fraction (dropWhile is_digit s1) of
                 None \<Rightarrow> None
               | Some (fp, s2) \<Rightarrow>
                   (case parse_exponent s2 of
                      None \<Rightarrow> None
                    | Some (ex, s3) \<Rightarrow>
                        (let m = of_nat (digits_val ip) + of_nat (digits_val fp) / 10 ^ length fp;
                             v = (if 0 \<le> ex then m * 10 ^ nat ex else m / 10 ^ nat (- ex))
                         in Some (if neg then - v else v, s3)))))"

fun parse_value :: "nat \<Rightarrow> jsstring \<Rightarrow> (jsval \<times> jsstring) option"
  and parse_elements :: "nat \<Rightarrow> jsval list \<Rightarrow> jsstring \<Rightarrow> (jsval list \<times> jsstring) option"
  and parse_members :: "nat \<Rightarrow> (jsstring \<times> jsval) list \<Rightarrow> jsstring
        \<Rightarrow> ((jsstring \<times> jsval) list \<times> jsstring) option"
where
  "parse_value 0 s = None"
| "parse_value (Suc n) s =
     (case s of
        [] \<Rightarrow> None
      | c # cs \<Rightarrow>
          if c = 34 then
            (case parse_chars [] cs of
               None \<Rightarrow> None
             | Some (str, rest) \<Rightarrow> Some (JStr str, rest))
          else if c = 91 then
            (case skip_ws cs of
               [] \<Rightarrow> None
             | d # ds \<Rightarrow>
                 if d = 93 then Some (JArr [], ds)
                 else (case parse_elements n [] (d # ds) of
                         None \<Rightarrow> None
                       | Some (xs, rest) \<Rightarrow> Some (JArr xs, rest)))
          else if c = 123 then
            (case skip_ws cs of
               [] \<Rightarrow> None
             | d # ds \<Rightarrow>
                 if d = 125 then Some (JObj [], ds)
                 else (case parse_members n [] (d # ds) of
                         None \<Rightarrow> None
                       | Some (ms, rest) \<Rightarrow> Some (JObj ms, rest)))
          else if take 4 s = js ''true'' then Some (JBool True, drop 4 s)
          else if take 5 s = js ''false'' then Some (JBool False, drop 5 s)
          else if take 4 s = js ''null'' then Some (JNull, drop 4 s)
          else (case parse_number s of
                  None \<Rightarrow> None
                | Some (q, rest) \<Rightarrow> Some (JNum q, rest)))"
| "parse_elements 0 acc s = None"
| "parse_elements (Suc n) acc s =
     (case parse_value n s of
        None \<Rightarrow> None
      | Some (v, rest) \<Rightarrow>
          (case skip_ws rest of
             [] \<Rightarrow> None
           | c # cs \<Rightarrow>
               if c = 93 then Some (rev (v # acc), cs)
               else if c = 44 then parse_elements n (v # acc) (skip_ws cs)
               else None))"
| "parse_members 0 acc s = None"
| "parse_members (Suc n) acc s =
     (case s of
        [] \<Rightarrow> None
      | c # cs \<Rightarrow>
          if c \<noteq> 34 then None
          else (case parse_chars [] cs of
                  None \<Rightarrow> None
                | Some (k, rest) \<Rightarrow>
                    (case skip_ws rest of
                       [] \<Rightarrow> None
                     | d # ds \<Rightarrow>
                         if d \<noteq> 58 then None
                         else (case parse_value n (skip_ws ds) of
                                 None \<Rightarrow> None
                               | Some (v, rest2) \<Rightarrow>
                                   (case skip_ws rest2 of
                                      [] \<Rightarrow> None
                                    | e # es \<Rightarrow>
                                        if e = 125 then Some ((k, v) # acc, es)
                                        else if e = 44
                                        then parse_members n ((k, v) # acc) (skip_ws es)
                                        else None)))))"

text \<open>
  The members of an object are kept newest first, so that \<open>field\<close> finds the last of
  two members with the same name, as the language does. The fuel given is more than
  twice the length of the text.
\<close>

definition JSON_parse :: "jsstring \<Rightarrow> exn + jsval" where
  "JSON_parse text =
     (case parse_value (2 * length text + 2) (skip_ws text) of
        None \<Rightarrow> Inl SyntaxError
      | Some (v, rest) \<Rightarrow> if skip_ws rest = [] then Inr v else Inl SyntaxError)"

section \<open>The reply parser of /api/tasks/breakdown\<close>

text \<open>
  The regular expressions of the handler, each as the function it computes. The
  \<open>i\<close> flag folds the ASCII letters only: no other code unit has an ASCII letter, a
  backtick or one of the two ideographs as its upper case.
\<close>

definition upper_ascii :: "jschar \<Rightarrow> jschar" where
  "upper_ascii c = (if 97 \<le> c \<and> c \<le> 122 then c - 32 else c)"

fun starts_with_ci :: "jsstring \<Rightarrow> jsstring \<Rightarrow> bool" where
  "starts_with_ci [] s = True"
| "starts_with_ci (p # ps) [] = False"
| "starts_with_ci (p # ps) (c # cs) = (upper_ascii p = upper_ascii c \<and> starts_with_ci ps cs)"

definition fence :: jsstring where
  "fence = [96, 96, 96]"

definition fence_json :: jsstring where
  "fence_json = [96, 96, 96] @ js ''json''"

text \<open>\<open>s.replace(/^```json\s*/i, '')\<close> and \<open>s.replace(/^```\s*/i, '')\<close>, by the prefix.\<close>

definition drop_prefix_ws :: "jsstring \<Rightarrow> jsstring \<Rightarrow> jsstring" where
  "drop_prefix_ws p s =
     (if starts_with_ci p s then dropWhile is_ws (drop (length p) s) else s)"

text \<open>\<open>s.replace(/\s*```$/i, '')\<close>.\<close>

definition drop_fence_end :: "jsstring \<Rightarrow> jsstring" where
  "drop_fence_end s =
     (if take 3 (rev s) = fence then rev (dropWhile is_ws (drop 3 (rev s))) else s)"

text \<open>
  \<open>s.match(/\[[\s\S]*?\]/)\<close>: from the first opening bracket to the first closing
  bracket after it.
\<close>

definition match_array :: "jsstring \<Rightarrow> jsstring option" where
  "match_array s =
     (case dropWhile (\<lambda>c. c \<noteq> 91) s of
        [] \<Rightarrow> None
      | b # t \<Rightarrow>
          if dropWhile (\<lambda>c. c \<noteq> 93) t = [] then None
          else Some (b # takeWhile (\<lambda>c. c \<noteq> 93) t @ [93]))"

text \<open>
  \<open>s.replace(/```json/gi, '')\<close> and \<open>s.replace(/```/g, '')\<close>, by the text removed (not
  empty).
\<close>

fun remove_all :: "jsstring \<Rightarrow> jsstring \<Rightarrow> jsstring" where
  "remove_all p [] = []"
| "remove_all p (c # cs) =
     (if starts_with_ci p (c # cs) then remove_all p (drop (length p - 1) cs)
      else c # remove_all p cs)"

text \<open>\<open>s.split('\n')\<close>.\<close>

fun split_lines :: "jsstring \<Rightarrow> jsstring list" where
  "split_lines [] = [[]]"
| "split_lines (c # cs) =
     (if c = 10 then [] # split_lines cs
      else (case split_lines cs of
              [] \<Rightarrow> [[c]]
            | l # ls \<Rightarrow> (c # l) # ls))"

text \<open>\<open>line.match(/^(```|\<dots>|Step|Task|JSON)/i)\<close>; the second alternative is two ideographs.\<close>

definition is_header :: "jsstring \<Rightarrow> bool" where
  "is_header line \<longleftrightarrow>
     starts_with_ci fence line \<or> starts_with_ci [27493, 39588] line \<or>
     starts_with_ci (js ''Step'') line \<or> starts_with_ci (js ''Task'') line \<or>
     starts_with_ci (js ''JSON'') line"

text \<open>
  \<open>s.replace(/^["'\[,\s]+|["'\]\s,]+$/g, '')\<close>: the leading run of the first class and
  the trailing run of the second.
\<close>

definition lead_char :: "jschar \<Rightarrow> bool" where
  "lead_char c \<longleftrightarrow> c = 34 \<or> c = 39 \<or> c = 91 \<or> c = 44 \<or> is_ws c"

definition trail_char :: "jschar \<Rightarrow> bool" where
  "trail_char c \<longleftrightarrow> c = 34 \<or> c = 39 \<or> c = 93 \<or> is_ws c \<or> c = 44"

definition strip_edges :: "jsstring \<Rightarrow> jsstring" where
  "strip_edges s = rev (dropWhile trail_char (rev (dropWhile lead_char s)))"

text \<open>
  \<open>line.replace(/^[\d\-\<bullet>\*\.]\s*/, '')\<close>: one character of the class (a digit, a
  minus, a bullet, a star or a dot) and the white space after it.
\<close>

definition marker_char :: "jschar \<Rightarrow> bool" where
  "marker_char c \<longleftrightarrow> is_digit c \<or> c = 45 \<or> c = 8226 \<or> c = 42 \<or> c = 46"

definition strip_marker :: "jsstring \<Rightarrow> jsstring" where
  "strip_marker line =
     (case line of
        [] \<Rightarrow> []
      | c # cs \<Rightarrow> if marker_char c then dropWhile is_ws cs else line)"

text \<open>\<open>line.match(/^[\[\],]+$/)\<close>.\<close>

definition only_brackets :: "jsstring \<Rightarrow> bool" where
  "only_brackets line \<longleftrightarrow> line \<noteq> [] \<and> list_all (\<lambda>c. c = 91 \<or> c = 93 \<or> c = 44) line"

text \<open>\<open>s.replace(/\\"/g, '"')\<close>.\<close>

fun unescape_quotes :: "jsstring \<Rightarrow> jsstring" where
  "unescape_quotes [] = []"
| "unescape_quotes [c] = [c]"
| "unescape_quotes (c # d # cs) =
     (if c = 92 \<and> d = 34 then 34 # unescape_quotes cs else c # unescape_quotes (d # cs))"

text \<open>The three layers, in the nesting of the source.\<close>

definition strict_clean :: "jsstring \<Rightarrow> jsstring" where
  "strict_clean aiResponse =
     trim (drop_fence_end (drop_prefix_ws fence (drop_prefix_ws fence_json (trim aiResponse))))"

text \<open>The body of the innermost \<open>catch\<close>: the steps read from the lines of the reply.\<close>

definition line_heuristic :: "jsstring \<Rightarrow> jsstring list" where
  "line_heuristic aiResponse =
     (let lines = filter (\<lambda>line. \<not> is_header line)
                    (filter (\<lambda>line. line \<noteq> [])
                       (map trim (split_lines aiResponse)))
      in take 5
           (filter (\<lambda>line. length line > 3 \<and> \<not> only_brackets line)
              (map (\<lambda>line. trim (strip_marker (strip_edges line))) lines)))"

text \<open>
  The body of \<open>catch (parseError)\<close>: without a bracketed substring nothing is assigned
  and \<open>subtasks\<close> stays the empty array; the line heuristic runs only when the
  bracketed substring does not parse.
\<close>

definition extract_array :: "jsstring \<Rightarrow> jsval" where
  "extract_array aiResponse =
     (case match_array aiResponse of
        None \<Rightarrow> JArr []
      | Some arrayMatch \<Rightarrow>
          (case JSON_parse (trim (remove_all fence (remove_all fence_json arrayMatch))) of
             Inr v \<Rightarrow> v
           | Inl _ \<Rightarrow> JArr (map JStr (line_heuristic aiResponse))))"

definition parse_reply :: "jsstring \<Rightarrow> jsval" where
  "parse_reply aiResponse =
     (let cleanedResponse = strict_clean aiResponse
      in case JSON_parse cleanedResponse of
           Inl _ \<Rightarrow> extract_array aiResponse
         | Inr parsed \<Rightarrow>
             (case parsed of
                JArr xs \<Rightarrow> JArr xs
              | _ \<Rightarrow>
                  (case match_array cleanedResponse of
                     None \<Rightarrow> JArr []
                   | Some arrayMatch \<Rightarrow>
                       (case JSON_parse arrayMatch of
                          Inr v \<Rightarrow> v
                        | Inl _ \<Rightarrow> extract_array aiResponse))))"

text \<open>
  The cleaning \<open>map\<close> and \<open>filter\<close> after the layers. \<open>task.replace\<close> on an element that
  is not a string throws, as \<open>subtasks.map\<close> does on a value that is not an array.
\<close>

definition clean_title :: "jsstring \<Rightarrow> jsstring" where
  "clean_title task = trim (unescape_quotes (strip_edges task))"

fun strings_of :: "jsval list \<Rightarrow> jsstring list option" where
  "strings_of [] = Some []"
| "strings_of (JStr s # vs) = (case strings_of vs of None \<Rightarrow> None | Some ss \<Rightarrow> Some (s # ss))"
| "strings_of (_ # vs) = None"

definition clean_subtasks :: "jsval \<Rightarrow> exn + jsstring list" where
  "clean_subtasks subtasks =
     (case subtasks of
        JArr xs \<Rightarrow>
          (case strings_of xs of
             None \<Rightarrow> Inl TypeError
           | Some ss \<Rightarrow> Inr (filter (\<lambda>task. length task > 0) (map clean_title ss)))
      | _ \<Rightarrow> Inl TypeError)"

section \<open>The handler of /api/tasks/breakdown\<close>

text \<open>
  The body carries \<open>taskId\<close>, a number or a string when present, and \<open>taskTitle\<close>. What
  the handler gets from outside the repository is in \<open>breakdown_env\<close>: whether
  \<open>DEEPSEEK_API_KEY\<close> of lib/config is set, and what the call of the external model
  gives for a task title: an exception, or a completion with or without content.
\<close>

datatype task_ref = Ref_number rat | Ref_string jsstring

record breakdown_body =
  taskId :: "task_ref option"
  taskTitle :: jsval

record breakdown_request =
  b_method :: http_method
  b_body :: breakdown_body

datatype ai_outcome = Ai_throws string | Ai_content "jsstring option"

record breakdown_env =
  api_key :: bool
  ai :: "jsstring \<Rightarrow> ai_outcome"

datatype breakdown_error =
    Method_not_allowed http_method
  | Task_id_not_positive
  | Breakdown_task_not_found
  | Task_title_not_a_string
  | Task_id_or_title_required
  | Api_key_not_configured
  | Ai_call_failed string
  | Ai_no_response
  | No_valid_subtasks
  | Too_few_subtasks nat
  | Insert_failed store_error
  | Unexpected exn

type_synonym breakdown_response = "(Task list, breakdown_error) response"

text \<open>\<open>if (taskId)\<close> on a number or a string.\<close>

fun ref_truthy :: "task_ref option \<Rightarrow> bool" where
  "ref_truthy None = False"
| "ref_truthy (Some (Ref_number q)) = (q \<noteq> 0)"
| "ref_truthy (Some (Ref_string s)) = (s \<noteq> [])"

text \<open>
  \<open>typeof taskId === 'string' ? parseInt(taskId) : taskId\<close>, with \<open>None\<close> for \<open>NaN\<close>.
\<close>

fun ref_number :: "task_ref \<Rightarrow> rat option" where
  "ref_number (Ref_number q) = Some q"
| "ref_number (Ref_string s) = map_option of_int (parseInt s)"

text \<open>
  The select by a number: the store takes an integer key and answers a key with a
  fractional part with an error.
\<close>

definition select_by_number :: "rat \<Rightarrow> store \<Rightarrow> (store_error + Task) \<times> store" where
  "select_by_number q st =
     (if isInteger q then select_single \<lfloor>q\<rfloor> st
      else (Inl (Failure ''invalid input syntax for type bigint''),
            snd (issue (Select_malformed q) st)))"

text \<open>
  The first part of the handler: the subject of the breakdown, as the pair of
  \<open>finalTaskId\<close> and \<open>finalTaskTitle\<close>, or the response that ends the request.
\<close>

definition resolve_subject ::
    "breakdown_body \<Rightarrow> store \<Rightarrow> (breakdown_response + (int option \<times> jsstring)) \<times> store" where
  "resolve_subject b st =
     (if ref_truthy (taskId b) then
        (case ref_number (the (taskId b)) of
           None \<Rightarrow> (Inl (errorResponse Task_id_not_positive 400), st)
         | Some numId \<Rightarrow>
             if numId \<le> 0 then (Inl (errorResponse Task_id_not_positive 400), st)
             else (let (r, st) = select_by_number numId st
                   in case r of
                        Inl _ \<Rightarrow> (Inl (errorResponse Breakdown_task_not_found 404), st)
                      | Inr existingTask \<Rightarrow> (Inr (Some \<lfloor>numId\<rfloor>, title existingTask), st)))
      else if truthy (taskTitle b) then
        (case taskTitle b of
           JStr t \<Rightarrow>
             if length (trim t) = 0 then (Inl (errorResponse Task_title_not_a_string 400), st)
             else (Inr (None, trim t), st)
         | _ \<Rightarrow> (Inl (errorResponse Task_title_not_a_string 400), st))
      else (Inl (errorResponse Task_id_or_title_required 400), st))"

text \<open>The generated description: the title between the two fixed parts of the template.\<close>

definition generated_description :: "jsstring \<Rightarrow> jsstring" where
  "generated_description finalTaskTitle =
     [30001, 32, 65, 73, 32, 20174, 12300] @ finalTaskTitle
       @ [12301, 25286, 35299, 29983, 25104]"

definition taskData :: "int option \<Rightarrow> jsstring \<Rightarrow> jsstring \<Rightarrow> new_task" where
  "taskData finalTaskId finalTaskTitle subtask =
     \<lparr>n_title = trim subtask, n_description = Some (generated_description finalTaskTitle),
      n_status = pending, n_priority = medium, n_parent_id = finalTaskId\<rparr>"

text \<open>From the count check to the response.\<close>

definition persist_subtasks ::
    "int option \<Rightarrow> jsstring \<Rightarrow> jsstring list \<Rightarrow> store \<Rightarrow> breakdown_response \<times> store" where
  "persist_subtasks finalTaskId finalTaskTitle subtasks st =
     (if length subtasks = 0 then (errorResponse No_valid_subtasks 400, st)
      else if length subtasks < 3
      then (errorResponse (Too_few_subtasks (length subtasks)) 400, st)
      else (let finalSubtasks = take 5 subtasks;
                taskDataList = map (taskData finalTaskId finalTaskTitle) finalSubtasks;
                (r, st) = insert_rows taskDataList st
            in case r of
                 Inl insertError \<Rightarrow> (errorResponse (Insert_failed insertError) 500, st)
               | Inr createdTasks \<Rightarrow> (successResponse createdTasks 201, st)))"

definition breakdown_handler ::
    "breakdown_request \<Rightarrow> breakdown_env \<Rightarrow> store \<Rightarrow> breakdown_response \<times> store" where
  "breakdown_handler req env st =
     (if b_method req \<noteq> POST
      then ((errorResponse (Method_not_allowed (b_method req)) 405)\<lparr>allow := [POST]\<rparr>, st)
      else (let (subject, st) = resolve_subject (b_body req) st
            in case subject of
                 Inl resp \<Rightarrow> (resp, st)
               | Inr (finalTaskId, finalTaskTitle) \<Rightarrow>
                   if \<not> api_key env then (errorResponse Api_key_not_configured 500, st)
                   else (case ai env finalTaskTitle of
                           Ai_throws m \<Rightarrow> (errorResponse (Ai_call_failed m) 500, st)
                         | Ai_content None \<Rightarrow> (errorResponse Ai_no_response 500, st)
                         | Ai_content (Some aiResponse) \<Rightarrow>
                             if aiResponse = [] then (errorResponse Ai_no_response 500, st)
                             else (case clean_subtasks (parse_reply aiResponse) of
                                     Inl e \<Rightarrow> (errorResponse (Unexpected e) 500, st)
                                   | Inr subtasks \<Rightarrow>
                                       persist_subtasks finalTaskId finalTaskTitle subtasks st))))"

section \<open>The validation rules of the specification\<close>
















section \<open>Example data\<close>

definition row :: "int \<Rightarrow> string \<Rightarrow> int option \<Rightarrow> nat \<Rightarrow> Task" where
  "row i t p c = \<lparr>task_id = i, title = js t, description = None, status = pending,
     priority = medium, parent_id = p, created_at = c\<rparr>"

text \<open>Task 1 with its child, task 2.\<close>

definition store_AB :: store where
  "store_AB = \<lparr>rows = [row 1 ''A'' None 0, row 2 ''B'' (Some 1) 1], next_id = 3, clock = 2,
     faults = [], calls = []\<rparr>"

definition store_12 :: store where
  "store_12 = \<lparr>rows = [row 12 ''A'' None 0], next_id = 13, clock = 1, faults = [], calls = []\<rparr>"

text \<open>Two stores whose only row has the same id and title and differs in every other column.\<close>

definition store_plain :: store where
  "store_plain = \<lparr>rows = [row 1 ''A'' None 0], next_id = 2, clock = 1, faults = [], calls = []\<rparr>"

definition store_rich :: store where
  "store_rich = \<lparr>rows = [\<lparr>task_id = 1, title = js ''A'', description = Some (js ''notes''),
       status = completed, priority = high, parent_id = None, created_at = 7\<rparr>],
     next_id = 2, clock = 8, faults = [], calls = []\<rparr>"


definition body_parent_half :: jsval where
  "body_parent_half = JObj [(js ''title'', JStr (js ''x'')), (js ''parent_id'', JNum (1 / 2))]"

definition body_parent_zero :: jsval where
  "body_parent_zero = JObj [(js ''title'', JStr (js ''x'')), (js ''parent_id'', JNum 0)]"

definition body_parent_negative :: jsval where
  "body_parent_negative = JObj [(js ''title'', JStr (js ''x'')), (js ''parent_id'', JNum (- 5))]"

text \<open>The reply of three numbered lines, without a bracket.\<close>

definition numbered_reply :: jsstring where
  "numbered_reply = js ''1. Do X'' @ [10] @ js ''2. Do Y'' @ [10] @ js ''3. Do Z''"

text \<open>A reply of six steps as a JSON array, and a setting in which the model gives it.\<close>

definition six_steps_reply :: jsstring where
  "six_steps_reply = js ''[\"a1\",\"b2\",\"c3\",\"d4\",\"e5\",\"f6\"]''"

definition env_of :: "jsstring \<Rightarrow> breakdown_env" where
  "env_of reply = \<lparr>api_key = True, ai = (\<lambda>title. Ai_content (Some reply))\<rparr>"

definition title_request :: breakdown_request where
  "title_request = \<lparr>b_method = POST,
     b_body = \<lparr>taskId = None, taskTitle = JStr (js ''plan a trip'')\<rparr>\<rparr>"

text \<open>A reply of two steps only, and a payload with a priority in capitals.\<close>

definition two_steps_reply :: jsstring where
  "two_steps_reply = js ''[\"a1\",\"b2\"]''"


section \<open>Properties of the validator blocks\<close>

lemma js_Cons_neq: "js (c # s) \<noteq> []"
  by (simp add: js_def)

lemma js_inject: "js a = js b \<longleftrightarrow> a = b"
proof -
  have "inj (of_char :: char \<Rightarrow> nat)" by (rule inj_of_char)
  then show ?thesis unfolding js_def by (simp add: inj_map_eq_map)
qed

lemma field_not_nullish: "field b k \<noteq> JUndefined \<Longrightarrow> \<not> nullish b"
  by (cases b) auto

lemma isInteger_of_int: "isInteger (of_int n)"
  by (simp add: isInteger_def)

lemma isInteger_half: "\<not> isInteger (1 / 2)"
  unfolding isInteger_def by code_simp

lemma not_integer_number_simps:
  "not_integer_number (JNum q) = (\<not> isInteger q)"
  "not_integer_number JUndefined" "not_integer_number JNull" "not_integer_number (JBool x)"
  "not_integer_number (JStr s)" "not_integer_number (JArr xs)" "not_integer_number (JObj fs)"
  by (simp_all add: not_integer_number_def)

lemma status_of_None:
  "v \<noteq> JStr (js ''pending'') \<Longrightarrow> v \<noteq> JStr (js ''completed'') \<Longrightarrow> status_of v = None"
  by (auto simp: status_of_def split: jsval.splits)

lemma validateCreate_Inr:
  "\<not> nullish b \<Longrightarrow> validateCreateRequest b =
     Inr (create_parent_id b (create_priority b (create_status b (create_description b
           (create_title b [])))))"
  by (simp add: validateCreateRequest_def)

lemma validateUpdate_Inr:
  "\<not> nullish b \<Longrightarrow> validateUpdateRequest b =
     Inr (update_parent_id b (update_priority b (update_status b (update_description b
           (update_title b ([], empty_update))))))"
  by (simp add: validateUpdateRequest_def)

text \<open>No block removes an error that an earlier block reported.\<close>

lemma create_steps_mono:
  "set errors \<subseteq> set (create_title b errors)"
  "set errors \<subseteq> set (create_description b errors)"
  "set errors \<subseteq> set (create_status b errors)"
  "set errors \<subseteq> set (create_priority b errors)"
  "set errors \<subseteq> set (create_parent_id b errors)"
  by (auto simp: create_title_def create_description_def create_status_def create_priority_def
      create_parent_id_def split: jsval.splits)

lemma update_steps_mono:
  "set (fst v) \<subseteq> set (fst (update_title b v))"
  "set (fst v) \<subseteq> set (fst (update_description b v))"
  "set (fst v) \<subseteq> set (fst (update_status b v))"
  "set (fst v) \<subseteq> set (fst (update_priority b v))"
  "set (fst v) \<subseteq> set (fst (update_parent_id b v))"
  by (auto simp: update_title_def update_description_def update_status_def update_priority_def
      update_parent_id_def split: jsval.splits prod.splits option.splits)





lemma block_at_most_one:
  "length (create_title b []) \<le> 1" "length (create_description b []) \<le> 1"
  "length (create_status b []) \<le> 1" "length (create_priority b []) \<le> 1"
  "length (create_parent_id b []) \<le> 1"
  "length (fst (update_title b ([], u))) \<le> 1" "length (fst (update_description b ([], u))) \<le> 1"
  "length (fst (update_status b ([], u))) \<le> 1" "length (fst (update_priority b ([], u))) \<le> 1"
  "length (fst (update_parent_id b ([], u))) \<le> 1"
  by (auto simp: create_title_def create_description_def create_status_def create_priority_def
      create_parent_id_def update_title_def update_description_def update_status_def
      update_priority_def update_parent_id_def split: jsval.splits option.splits)

text \<open>Only the last block reports on \<open>parent_id\<close> and only it sets the key.\<close>

lemma create_parent_id_mem:
  "Parent_id_not_integer \<in> set (create_parent_id b errors) \<longleftrightarrow>
     Parent_id_not_integer \<in> set errors \<or>
     (field b (js ''parent_id'') \<noteq> JUndefined \<and> field b (js ''parent_id'') \<noteq> JNull
        \<and> not_integer_number (field b (js ''parent_id'')))"
  by (auto simp: create_parent_id_def)

lemma create_other_no_parent_msg:
  "Parent_id_not_integer \<in> set (create_title b errors) \<longleftrightarrow> Parent_id_not_integer \<in> set errors"
  "Parent_id_not_integer \<in> set (create_description b errors) \<longleftrightarrow> Parent_id_not_integer \<in> set errors"
  "Parent_id_not_integer \<in> set (create_status b errors) \<longleftrightarrow> Parent_id_not_integer \<in> set errors"
  "Parent_id_not_integer \<in> set (create_priority b errors) \<longleftrightarrow> Parent_id_not_integer \<in> set errors"
  by (auto simp: create_title_def create_description_def create_status_def create_priority_def
      split: jsval.splits)

lemma update_parent_id_mem:
  "Parent_id_not_integer_or_null \<in> set (fst (update_parent_id b v)) \<longleftrightarrow>
     Parent_id_not_integer_or_null \<in> set (fst v) \<or>
     (field b (js ''parent_id'') \<noteq> JUndefined \<and> field b (js ''parent_id'') \<noteq> JNull
        \<and> not_integer_number (field b (js ''parent_id'')))"
  by (auto simp: update_parent_id_def not_integer_number_def split: prod.splits jsval.splits)

lemma update_other_no_parent_msg:
  "Parent_id_not_integer_or_null \<in> set (fst (update_title b v))
     \<longleftrightarrow> Parent_id_not_integer_or_null \<in> set (fst v)"
  "Parent_id_not_integer_or_null \<in> set (fst (update_description b v))
     \<longleftrightarrow> Parent_id_not_integer_or_null \<in> set (fst v)"
  "Parent_id_not_integer_or_null \<in> set (fst (update_status b v))
     \<longleftrightarrow> Parent_id_not_integer_or_null \<in> set (fst v)"
  "Parent_id_not_integer_or_null \<in> set (fst (update_priority b v))
     \<longleftrightarrow> Parent_id_not_integer_or_null \<in> set (fst v)"
  by (auto simp: update_title_def update_description_def update_status_def update_priority_def
      split: jsval.splits prod.splits option.splits)

lemma update_parent_id_snd:
  "u_parent_id (snd (update_parent_id b v)) =
     (case field b (js ''parent_id'') of
        JUndefined \<Rightarrow> u_parent_id (snd v)
      | JNull \<Rightarrow> Some None
      | JNum q \<Rightarrow> if isInteger q then Some (Some \<lfloor>q\<rfloor>) else u_parent_id (snd v)
      | _ \<Rightarrow> u_parent_id (snd v))"
  by (auto simp: update_parent_id_def split: jsval.splits prod.splits)

lemma integer_parent_reaches_updateData:
  assumes "field b (js ''parent_id'') = JNum (of_int n)"
  shows "\<exists>errs upd. validateUpdateRequest b = Inr (errs, upd) \<and> u_parent_id upd = Some (Some n)"
proof -
  let ?v = "update_parent_id b (update_priority b (update_status b (update_description b
              (update_title b ([], empty_update)))))"
  have nn: "\<not> nullish b"
    using assms field_not_nullish[of b "js ''parent_id''"] by simp
  have "u_parent_id (snd ?v) = Some (Some n)"
    unfolding update_parent_id_snd using assms by (simp add: isInteger_of_int)
  moreover have "validateUpdateRequest b = Inr (fst ?v, snd ?v)"
    using validateUpdate_Inr[OF nn] by simp
  ultimately show ?thesis by blast
qed

section \<open>Properties of the store calls\<close>

lemma issue_effect:
  "issue c st = (f, st') \<Longrightarrow> rows st' = rows st \<and> calls st' = calls st @ [c]"
  by (auto simp: issue_def split: list.splits)

lemma select_single_effect:
  "select_single k st = (r, st') \<Longrightarrow>
     rows st' = rows st \<and> calls st' = calls st @ [Select_single k]"
  by (auto simp: select_single_def Let_def dest!: issue_effect
      split: prod.splits option.splits list.splits)

lemma select_single_found:
  "select_single k st = (Inr r, st') \<Longrightarrow> filter (\<lambda>r. task_id r = k) (rows st) = [r]"
  by (auto simp: select_single_def Let_def dest!: issue_effect
      split: prod.splits option.splits list.splits)

lemma do_update_status: "http_status (fst (do_update k u st)) \<noteq> 400"
  by (auto simp: do_update_def Let_def errorResponse_def successResponse_def
      split: prod.splits sum.splits list.splits)

text \<open>The cascade only removes rows.\<close>

lemma cascade_subset: "set (cascade dead rs) \<subseteq> set rs"
proof (induction dead rs rule: cascade.induct)
  case (1 dead rs)
  show ?case
  proof (cases "filter (child_of dead) rs = []")
    case True
    then show ?thesis by (subst cascade.simps) simp
  next
    case False
    then have "set (cascade dead rs) =
        set (cascade (map task_id (filter (child_of dead) rs))
               (filter (\<lambda>r. \<not> child_of dead r) rs))"
      by (subst cascade.simps) simp
    also have "\<dots> \<subseteq> set (filter (\<lambda>r. \<not> child_of dead r) rs)"
      using 1[OF False] .
    finally show ?thesis by auto
  qed
qed

text \<open>Every 400 of the PATCH branch is returned before the update call.\<close>

lemma handler_PATCH_400:
  assumes "handler_PATCH k b st = (resp, st')" and "http_status resp = 400"
  shows "rows st' = rows st \<and> filter is_write (issued st st') = []"
proof (cases "validateUpdateRequest b")
  case (Inl e)
  then show ?thesis using assms by (auto simp: handler_PATCH_def errorResponse_def)
next
  case (Inr v)
  obtain errs upd where v: "v = (errs, upd)" by (cases v)
  note vu = Inr[unfolded v]
  have du: "do_update k upd s \<noteq> (resp, st')" for s
    using do_update_status[of k upd s] assms(2) by (metis fst_conv)
  show ?thesis
  proof (cases "errs \<noteq> [] \<or> no_keys upd \<or> u_parent_id upd = Some (Some k)")
    case True
    then have "st' = st" using assms vu by (auto simp: handler_PATCH_def split: if_splits)
    then show ?thesis by (simp add: issued_def)
  next
    case False
    show ?thesis
    proof (cases "\<exists>p. u_parent_id upd = Some (Some p) \<and> p \<noteq> 0")
      case True
      then obtain p where p: "u_parent_id upd = Some (Some p)" "p \<noteq> 0" by blast
      obtain r s1 where ss: "select_single p st = (r, s1)" by (cases "select_single p st")
      have eff: "rows s1 = rows st" "calls s1 = calls st @ [Select_single p]"
        using select_single_effect[OF ss] by auto
      have "st' = s1" using assms(1) vu False p ss du
        by (auto simp: handler_PATCH_def split: if_splits sum.splits)
      then show ?thesis using eff by (simp add: issued_def)
    next
      case F2: False
      then have "handler_PATCH k b st = do_update k upd st"
        using vu False by (auto simp: handler_PATCH_def split: option.splits)
      then show ?thesis using du[of st] assms(1) by simp
    qed
  qed
qed

section \<open>Evaluations used below\<close>

lemma validateId_1: "validateId (Single (js ''1'')) = Some 1"
  by (simp add: validateId_def parseInt_def js_def is_ws_def digit_val_def Let_def)

lemma parseInt_abc: "parseInt (js ''abc'') = None"
  by (simp add: parseInt_def js_def is_ws_def digit_val_def Let_def)

lemma parseInt_12abc: "parseInt (js ''12abc'') = Some 12"
  by (simp add: parseInt_def js_def is_ws_def digit_val_def Let_def)

lemma validateUpdate_parent_99:
  "validateUpdateRequest (JObj [(js ''parent_id'', JNum 99)])
     = Inr ([], empty_update\<lparr>u_parent_id := Some (Some 99)\<rparr>)"
  by (simp add: validateUpdateRequest_def update_title_def update_description_def
      update_status_def update_priority_def update_parent_id_def js_inject isInteger_def)

lemma patch_missing_parent:
  "handler \<lparr>req_method = PATCH, query_id = Single (js ''1''),
       body = JObj [(js ''parent_id'', JNum 99)]\<rparr> store_AB
   = (errorResponse Parent_not_found 400, store_AB\<lparr>calls := [Select_single 99]\<rparr>)"
  by (simp add: handler_def validateId_1 handler_PATCH_def validateUpdate_parent_99
      empty_update_def no_keys_def select_single_def issue_def store_AB_def row_def)

section \<open>Properties of the breakdown handler\<close>

lemma length_new_rows: "length (new_rows i t ns) = length ns"
  by (induction ns arbitrary: i) auto

lemma insert_rows_created:
  "insert_rows ns st = (Inr created, st') \<Longrightarrow>
     length created = length ns \<and> calls st' = calls st @ [Insert_call ns]"
  by (auto simp: insert_rows_def Let_def length_new_rows dest!: issue_effect
      split: prod.splits option.splits if_splits)

text \<open>A 201 comes from the insert of the first five of at least three titles.\<close>

lemma persist_subtasks_201:
  assumes "persist_subtasks fid ft subtasks st = (resp, st')" and "http_status resp = 201"
  shows "3 \<le> length subtasks
       \<and> success resp
       \<and> (\<exists>created. data resp = Some created \<and> length created = min 5 (length subtasks))
       \<and> issued st st' = [Insert_call (map (taskData fid ft) (take 5 subtasks))]"
proof -
  have n3: "3 \<le> length subtasks"
    using assms by (auto simp: persist_subtasks_def errorResponse_def split: if_splits)
  obtain r s1 where ins: "insert_rows (map (taskData fid ft) (take 5 subtasks)) st = (r, s1)"
    by (cases "insert_rows (map (taskData fid ft) (take 5 subtasks)) st")
  have ne: "subtasks \<noteq> []" "\<not> length subtasks < 3" using n3 by auto
  have eq: "persist_subtasks fid ft subtasks st =
      (case r of Inl e \<Rightarrow> (errorResponse (Insert_failed e) 500, s1)
               | Inr c \<Rightarrow> (successResponse c 201, s1))"
    using ne ins by (simp add: persist_subtasks_def Let_def)
  have "\<exists>created. r = Inr created \<and> resp = successResponse created 201 \<and> st' = s1"
    using assms eq by (cases r) (auto simp: errorResponse_def)
  then obtain created where c: "r = Inr created" "resp = successResponse created 201" "st' = s1"
    by blast
  have "length created = length (map (taskData fid ft) (take 5 subtasks))
      \<and> calls s1 = calls st @ [Insert_call (map (taskData fid ft) (take 5 subtasks))]"
    using insert_rows_created ins c(1) by blast
  then show ?thesis using n3 c by (simp add: successResponse_def issued_def min_def)
qed

lemma persist_subtasks_too_few:
  "length subtasks < 3 \<Longrightarrow>
     http_status (fst (persist_subtasks fid ft subtasks st)) = 400
     \<and> snd (persist_subtasks fid ft subtasks st) = st"
  by (simp add: persist_subtasks_def errorResponse_def)

lemma resolve_subject_not_201:
  "resolve_subject b st = (Inl resp, st') \<Longrightarrow> http_status resp \<noteq> 201"
  by (auto simp: resolve_subject_def Let_def errorResponse_def
      split: if_splits option.splits prod.splits sum.splits jsval.splits)

section \<open>The fuel of JSON.parse suffices\<close>

text \<open>
  Every parser consumes input, so a parse with more than twice the length of the text
  as fuel never stops for lack of it.
\<close>

lemma parse_chars_shorter:
  "parse_chars acc s = Some (str, r) \<Longrightarrow> length r < length s"
proof (induction s arbitrary: acc rule: length_induct)
  case (1 s)
  note IH = 1(1)[rule_format] and eq = 1(2)
  show ?case
  proof (cases s)
    case Nil
    then show ?thesis using eq by simp
  next
    case (Cons c cs)
    have rec: "length r < length s" if "parse_chars a t = Some (str, r)" "length t < length s" for a t
      using IH[OF that(2) that(1)] that(2) by simp
    show ?thesis
    proof (cases "c = 34")
      case True
      then show ?thesis using eq Cons by simp
    next
      case n34: False
      show ?thesis
      proof (cases "c = 92")
        case False
        then have "parse_chars (c # acc) cs = Some (str, r)"
          using eq Cons n34 by (simp split: if_splits)
        then show ?thesis using rec[of "c # acc" cs] Cons by simp
      next
        case True
        then obtain e es where cs: "cs = e # es"
          using eq Cons n34 by (cases cs) (auto split: if_splits)
        have body: "\<not> c < 32" using True by simp
        show ?thesis
        proof (cases "e = 117")
          case False
          then have "\<exists>a. parse_chars a es = Some (str, r)"
            using eq Cons n34 True cs by (simp split: if_splits) blast+
          then show ?thesis using rec[of _ es] Cons cs by auto
        next
          case u: True
          then obtain h1 h2 h3 h4 rest where es: "es = h1 # h2 # h3 # h4 # rest"
            using eq Cons n34 True cs by (auto split: list.splits)
          then have "\<exists>a. parse_chars a rest = Some (str, r)"
            using eq Cons n34 True cs u by (auto split: option.splits)
          then show ?thesis using rec[of _ rest] Cons cs es by auto
        qed
      qed
    qed
  qed
qed

lemma dropWhile_shorter: "takeWhile P xs \<noteq> [] \<Longrightarrow> length (dropWhile P xs) < length xs"
proof -
  assume "takeWhile P xs \<noteq> []"
  then have "0 < length (takeWhile P xs)" by simp
  moreover have "length (takeWhile P xs) + length (dropWhile P xs) = length xs"
    by (metis length_append takeWhile_dropWhile_id)
  ultimately show ?thesis by linarith
qed

lemma parse_fraction_le: "parse_fraction s = Some (fp, r) \<Longrightarrow> length r \<le> length s"
  by (cases s) (auto simp: parse_fraction_def split: if_splits
      intro: le_trans[OF length_dropWhile_le])

lemma parse_exponent_le: "parse_exponent s = Some (ex, r) \<Longrightarrow> length r \<le> length s"
proof (cases s)
  case Nil
  assume "parse_exponent s = Some (ex, r)"
  then show ?thesis using Nil by (simp add: parse_exponent_def)
next
  case (Cons c cs)
  assume a: "parse_exponent s = Some (ex, r)"
  show ?thesis
  proof (cases "c = 101 \<or> c = 69")
    case False
    then show ?thesis using a Cons by (auto simp: parse_exponent_def)
  next
    case True
    let ?ds = "if cs \<noteq> [] \<and> (hd cs = 45 \<or> hd cs = 43) then tl cs else cs"
    have "r = dropWhile is_digit ?ds"
      using a Cons True by (auto simp: parse_exponent_def Let_def split: if_splits)
    moreover have "length ?ds \<le> length cs" by simp
    moreover have "length (dropWhile is_digit ?ds) \<le> length ?ds" by (rule length_dropWhile_le)
    ultimately show ?thesis using Cons by simp
  qed
qed

lemma parse_number_shorter: "parse_number s = Some (q, r) \<Longrightarrow> length r < length s"
proof -
  assume a: "parse_number s = Some (q, r)"
  define s1 where "s1 = (if s \<noteq> [] \<and> hd s = 45 then tl s else s)"
  have ip: "takeWhile is_digit s1 \<noteq> []"
    using a by (auto simp: parse_number_def Let_def s1_def split: if_splits)
  obtain fp s2 where f: "parse_fraction (dropWhile is_digit s1) = Some (fp, s2)"
    using a ip by (auto simp: parse_number_def Let_def s1_def split: if_splits option.splits)
  obtain ex s3 where e: "parse_exponent s2 = Some (ex, s3)"
    using a ip f by (auto simp: parse_number_def Let_def s1_def split: if_splits option.splits)
  have "r = s3"
    using a ip f e by (auto simp: parse_number_def Let_def s1_def split: if_splits)
  then have 1: "length r \<le> length s2" using e parse_exponent_le by blast
  have 2: "length s2 \<le> length (dropWhile is_digit s1)" using f by (rule parse_fraction_le)
  have 3: "length (dropWhile is_digit s1) < length s1" using ip by (rule dropWhile_shorter)
  have 4: "length s1 \<le> length s" by (simp add: s1_def)
  show ?thesis using 1 2 3 4 by linarith
qed

lemma skip_ws_Cons: "skip_ws s = d # ds \<Longrightarrow> Suc (length ds) \<le> length s"
proof -
  assume "skip_ws s = d # ds"
  then have "length (dropWhile json_ws s) = Suc (length ds)" by (simp add: skip_ws_def)
  then show ?thesis using length_dropWhile_le[of json_ws s] by simp
qed

lemma skip_ws_le: "length (skip_ws s) \<le> length s"
  by (simp add: skip_ws_def length_dropWhile_le)

lemma literal_shorter: "take k s = js lit \<Longrightarrow> lit \<noteq> [] \<Longrightarrow> 0 < k \<Longrightarrow> length (drop k s) < length s"
proof -
  assume a: "take k s = js lit" "lit \<noteq> []" "0 < k"
  then have "take k s \<noteq> []" by (simp add: js_def)
  then have "s \<noteq> []" by auto
  then show ?thesis using a(3) by simp
qed

lemma parse_value_Suc_shorter:
  assumes el: "\<And>acc s xs r. parse_elements n acc s = Some (xs, r) \<Longrightarrow> length r < length s"
      and me: "\<And>ms s ys r. parse_members n ms s = Some (ys, r) \<Longrightarrow> length r < length s"
      and a: "parse_value (Suc n) s = Some (v, r)"
  shows "length r < length s"
proof (cases s)
  case Nil
  then show ?thesis using a by simp
next
  case (Cons c cs)
  consider (str) "c = 34" | (arr) "c = 91" | (obj) "c = 123"
    | (other) "c \<noteq> 34" "c \<noteq> 91" "c \<noteq> 123" by blast
  then show ?thesis
  proof cases
    case str
    then obtain st where "parse_chars [] cs = Some (st, r)"
      using a Cons by (auto split: option.splits)
    then show ?thesis using parse_chars_shorter Cons by fastforce
  next
    case arr
    then obtain d ds where sk: "skip_ws cs = d # ds"
      using a Cons by (cases "skip_ws cs") auto
    show ?thesis
    proof (cases "d = 93")
      case True
      then have "r = ds" using a Cons arr sk by simp
      then show ?thesis using skip_ws_Cons[OF sk] Cons by simp
    next
      case False
      then obtain xs where "parse_elements n [] (d # ds) = Some (xs, r)"
        using a Cons arr sk by (auto split: option.splits)
      then have "length r < length (d # ds)" by (rule el)
      then show ?thesis using skip_ws_Cons[OF sk] Cons by simp
    qed
  next
    case obj
    then obtain d ds where sk: "skip_ws cs = d # ds"
      using a Cons by (cases "skip_ws cs") auto
    show ?thesis
    proof (cases "d = 125")
      case True
      then have "r = ds" using a Cons obj sk by simp
      then show ?thesis using skip_ws_Cons[OF sk] Cons by simp
    next
      case False
      then obtain ys where "parse_members n [] (d # ds) = Some (ys, r)"
        using a Cons obj sk by (auto split: option.splits)
      then have "length r < length (d # ds)" by (rule me)
      then show ?thesis using skip_ws_Cons[OF sk] Cons by simp
    qed
  next
    case other
    have b: "(if take 4 s = js ''true'' then Some (JBool True, drop 4 s)
          else if take 5 s = js ''false'' then Some (JBool False, drop 5 s)
          else if take 4 s = js ''null'' then Some (JNull, drop 4 s)
          else (case parse_number s of None \<Rightarrow> None | Some (q, rest) \<Rightarrow> Some (JNum q, rest)))
        = Some (v, r)"
      using a other unfolding Cons by simp
    show ?thesis
    proof (cases "take 4 s = js ''true''")
      case True
      then show ?thesis using b literal_shorter[of 4 s "''true''"] by auto
    next
      case nt: False
      show ?thesis
      proof (cases "take 5 s = js ''false''")
        case True
        then show ?thesis using b nt literal_shorter[of 5 s "''false''"] by auto
      next
        case nf: False
        show ?thesis
        proof (cases "take 4 s = js ''null''")
          case True
          then show ?thesis using b nt nf literal_shorter[of 4 s "''null''"] by auto
        next
          case False
          then obtain q where "parse_number s = Some (q, r)"
            using b nt nf by (auto split: option.splits)
          then show ?thesis by (rule parse_number_shorter)
        qed
      qed
    qed
  qed
qed

lemma parse_elements_Suc_shorter:
  assumes va: "\<And>s v r. parse_value n s = Some (v, r) \<Longrightarrow> length r < length s"
      and el: "\<And>acc s xs r. parse_elements n acc s = Some (xs, r) \<Longrightarrow> length r < length s"
      and a: "parse_elements (Suc n) acc s = Some (xs, r)"
  shows "length r < length s"
proof -
  obtain v rest where pv: "parse_value n s = Some (v, rest)"
    using a by (auto split: option.splits)
  obtain c cs where sk: "skip_ws rest = c # cs"
    using a pv by (cases "skip_ws rest") auto
  have l1: "length rest < length s" using pv by (rule va)
  have l2: "Suc (length cs) \<le> length rest" using sk by (rule skip_ws_Cons)
  show ?thesis
  proof (cases "c = 93")
    case True
    then have "r = cs" using a pv sk by simp
    then show ?thesis using l1 l2 by simp
  next
    case False
    then have "parse_elements n (v # acc) (skip_ws cs) = Some (xs, r)"
      using a pv sk by (simp split: if_splits)
    then have "length r < length (skip_ws cs)" by (rule el)
    then show ?thesis using l1 l2 skip_ws_le[of cs] by linarith
  qed
qed

lemma parse_members_Suc_shorter:
  assumes va: "\<And>s v r. parse_value n s = Some (v, r) \<Longrightarrow> length r < length s"
      and me: "\<And>ms s ys r. parse_members n ms s = Some (ys, r) \<Longrightarrow> length r < length s"
      and a: "parse_members (Suc n) ms s = Some (ys, r)"
  shows "length r < length s"
proof -
  obtain c cs where s: "s = c # cs" using a by (cases s) auto
  have c: "c = 34" using a s by (simp split: if_splits)
  obtain k rest where pc: "parse_chars [] cs = Some (k, rest)"
    using a s c by (auto split: option.splits)
  obtain d ds where sk: "skip_ws rest = d # ds"
    using a s c pc by (cases "skip_ws rest") auto
  have d: "d = 58" using a s c pc sk by (simp split: if_splits)
  obtain v rest2 where pv: "parse_value n (skip_ws ds) = Some (v, rest2)"
    using a s c pc sk d by (auto split: option.splits)
  obtain e es where sk2: "skip_ws rest2 = e # es"
    using a s c pc sk d pv by (cases "skip_ws rest2") auto
  have l1: "length rest < length cs" using pc by (rule parse_chars_shorter)
  have l2: "Suc (length ds) \<le> length rest" using sk by (rule skip_ws_Cons)
  have l3: "length rest2 < length (skip_ws ds)" using pv by (rule va)
  have l4: "Suc (length es) \<le> length rest2" using sk2 by (rule skip_ws_Cons)
  have l5: "length es < length s"
    using l1 l2 l3 l4 skip_ws_le[of ds] s by simp
  show ?thesis
  proof (cases "e = 125")
    case True
    then have "r = es" using a s c pc sk d pv sk2 by simp
    then show ?thesis using l5 by simp
  next
    case False
    then have "parse_members n ((k, v) # ms) (skip_ws es) = Some (ys, r)"
      using a s c pc sk d pv sk2 by (simp split: if_splits)
    then have "length r < length (skip_ws es)" by (rule me)
    then show ?thesis using l5 skip_ws_le[of es] by linarith
  qed
qed

lemma parse_shorter:
  "(\<forall>s v r. parse_value n s = Some (v, r) \<longrightarrow> length r < length s)
   \<and> (\<forall>acc s xs r. parse_elements n acc s = Some (xs, r) \<longrightarrow> length r < length s)
   \<and> (\<forall>ms s ys r. parse_members n ms s = Some (ys, r) \<longrightarrow> length r < length s)"
proof (induction n)
  case 0
  show ?case by simp
next
  case (Suc n)
  have va: "\<And>s v r. parse_value n s = Some (v, r) \<Longrightarrow> length r < length s"
    and el: "\<And>acc s xs r. parse_elements n acc s = Some (xs, r) \<Longrightarrow> length r < length s"
    and me: "\<And>ms s ys r. parse_members n ms s = Some (ys, r) \<Longrightarrow> length r < length s"
    using Suc by blast+
  have 1: "length r < length s" if a: "parse_value (Suc n) s = Some (v, r)" for s v r
    by (rule parse_value_Suc_shorter[where n = n, OF _ _ a]) (rule el, assumption, rule me, assumption)
  have 2: "length r < length s" if a: "parse_elements (Suc n) acc s = Some (xs, r)" for acc s xs r
    by (rule parse_elements_Suc_shorter[where n = n, OF _ _ a]) (rule va, assumption, rule el, assumption)
  have 3: "length r < length s" if a: "parse_members (Suc n) ms s = Some (ys, r)" for ms s ys r
    by (rule parse_members_Suc_shorter[where n = n, OF _ _ a]) (rule va, assumption, rule me, assumption)
  show ?case using 1 2 3 by blast
qed

lemma parse_value_shorter: "parse_value n s = Some (v, r) \<Longrightarrow> length r < length s"
  using parse_shorter by blast

lemma parse_value_Suc_fuel:
  assumes el: "\<And>acc s. 2 * length s + 1 < n \<Longrightarrow> 2 * length s + 1 < m \<Longrightarrow>
                 parse_elements n acc s = parse_elements m acc s"
      and me: "\<And>ms s. 2 * length s + 1 < n \<Longrightarrow> 2 * length s + 1 < m \<Longrightarrow>
                 parse_members n ms s = parse_members m ms s"
      and bn: "2 * length s < Suc n" and bm: "2 * length s < Suc m"
  shows "parse_value (Suc n) s = parse_value (Suc m) s"
proof (cases s)
  case Nil
  then show ?thesis by simp
next
  case (Cons c cs)
  show ?thesis
  proof (cases "skip_ws cs")
    case Nil
    then show ?thesis using Cons by simp
  next
    case sk: (Cons d ds)
    have l: "Suc (length ds) \<le> length cs" using sk by (rule skip_ws_Cons)
    have b1: "2 * length (d # ds) + 1 < n" using l bn Cons by simp
    have b2: "2 * length (d # ds) + 1 < m" using l bm Cons by simp
    have "parse_elements n [] (d # ds) = parse_elements m [] (d # ds)"
      using b1 b2 by (rule el)
    moreover have "parse_members n [] (d # ds) = parse_members m [] (d # ds)"
      using b1 b2 by (rule me)
    ultimately show ?thesis using Cons sk by simp
  qed
qed

lemma parse_elements_Suc_fuel:
  assumes va: "\<And>s. 2 * length s < n \<Longrightarrow> 2 * length s < m \<Longrightarrow>
                 parse_value n s = parse_value m s"
      and el: "\<And>acc s. 2 * length s + 1 < n \<Longrightarrow> 2 * length s + 1 < m \<Longrightarrow>
                 parse_elements n acc s = parse_elements m acc s"
      and bn: "2 * length s + 1 < Suc n" and bm: "2 * length s + 1 < Suc m"
  shows "parse_elements (Suc n) acc s = parse_elements (Suc m) acc s"
proof -
  have pv: "parse_value n s = parse_value m s" using bn bm by (intro va) auto
  show ?thesis
  proof (cases "parse_value m s")
    case None
    then show ?thesis using pv by simp
  next
    case (Some p)
    obtain v rest where p: "p = (v, rest)" by (cases p)
    have l1: "length rest < length s" using Some p parse_value_shorter by blast
    show ?thesis
    proof (cases "skip_ws rest")
      case Nil
      then show ?thesis using pv Some p by simp
    next
      case (Cons c cs)
      have l2: "Suc (length cs) \<le> length rest" using Cons by (rule skip_ws_Cons)
      have l3: "length (skip_ws cs) \<le> length cs" by (rule skip_ws_le)
      have "parse_elements n (v # acc) (skip_ws cs) = parse_elements m (v # acc) (skip_ws cs)"
        using l1 l2 l3 bn bm by (intro el) auto
      then show ?thesis using pv Some p Cons by simp
    qed
  qed
qed

lemma parse_members_Suc_fuel:
  assumes va: "\<And>s. 2 * length s < n \<Longrightarrow> 2 * length s < m \<Longrightarrow>
                 parse_value n s = parse_value m s"
      and me: "\<And>ms s. 2 * length s + 1 < n \<Longrightarrow> 2 * length s + 1 < m \<Longrightarrow>
                 parse_members n ms s = parse_members m ms s"
      and bn: "2 * length s + 1 < Suc n" and bm: "2 * length s + 1 < Suc m"
  shows "parse_members (Suc n) ms s = parse_members (Suc m) ms s"
proof (cases s)
  case Nil
  then show ?thesis by simp
next
  case s: (Cons c cs)
  show ?thesis
  proof (cases "parse_chars [] cs")
    case None
    then show ?thesis using s by simp
  next
    case (Some p)
    obtain k rest where p: "p = (k, rest)" by (cases p)
    have l1: "length rest < length cs" using Some p parse_chars_shorter by blast
    show ?thesis
    proof (cases "skip_ws rest")
      case Nil
      then show ?thesis using s Some p by simp
    next
      case sk: (Cons d ds)
      have l2: "Suc (length ds) \<le> length rest" using sk by (rule skip_ws_Cons)
      have l3: "length (skip_ws ds) \<le> length ds" by (rule skip_ws_le)
      have pv: "parse_value n (skip_ws ds) = parse_value m (skip_ws ds)"
        using l1 l2 l3 bn bm s by (intro va) auto
      show ?thesis
      proof (cases "parse_value m (skip_ws ds)")
        case None
        then show ?thesis using s Some p sk pv by simp
      next
        case v: (Some q)
        obtain v' rest2 where q: "q = (v', rest2)" by (cases q)
        have l4: "length rest2 < length (skip_ws ds)" using v q parse_value_shorter by blast
        show ?thesis
        proof (cases "skip_ws rest2")
          case Nil
          then show ?thesis using s Some p sk pv v q by simp
        next
          case sk2: (Cons e es)
          have l5: "Suc (length es) \<le> length rest2" using sk2 by (rule skip_ws_Cons)
          have l6: "length (skip_ws es) \<le> length es" by (rule skip_ws_le)
          have "parse_members n ((k, v') # ms) (skip_ws es)
              = parse_members m ((k, v') # ms) (skip_ws es)"
            using l1 l2 l3 l4 l5 l6 bn bm s by (intro me) auto
          then show ?thesis using s Some p sk pv v q sk2 by simp
        qed
      qed
    qed
  qed
qed

lemma parse_fuel:
  "(\<forall>s m. 2 * length s < n \<and> 2 * length s < m \<longrightarrow> parse_value n s = parse_value m s)
   \<and> (\<forall>acc s m. 2 * length s + 1 < n \<and> 2 * length s + 1 < m \<longrightarrow>
         parse_elements n acc s = parse_elements m acc s)
   \<and> (\<forall>ms s m. 2 * length s + 1 < n \<and> 2 * length s + 1 < m \<longrightarrow>
         parse_members n ms s = parse_members m ms s)"
proof (induction n)
  case 0
  show ?case by simp
next
  case (Suc n)
  have va: "parse_value n s = parse_value m s"
    if "2 * length s < n" "2 * length s < m" for s m using Suc that by blast
  have el: "parse_elements n acc s = parse_elements m acc s"
    if "2 * length s + 1 < n" "2 * length s + 1 < m" for acc s m using Suc that by blast
  have me: "parse_members n ms s = parse_members m ms s"
    if "2 * length s + 1 < n" "2 * length s + 1 < m" for ms s m using Suc that by blast
  have 1: "parse_value (Suc n) s = parse_value m s"
    if b: "2 * length s < Suc n" "2 * length s < m" for s m
  proof -
    obtain m' where m: "m = Suc m'" using b(2) by (cases m) auto
    have bm: "2 * length s < Suc m'" using b(2) m by simp
    show ?thesis unfolding m
      by (rule parse_value_Suc_fuel[OF _ _ b(1) bm]) (rule el, assumption+, rule me, assumption+)
  qed
  have 2: "parse_elements (Suc n) acc s = parse_elements m acc s"
    if b: "2 * length s + 1 < Suc n" "2 * length s + 1 < m" for acc s m
  proof -
    obtain m' where m: "m = Suc m'" using b(2) by (cases m) auto
    have bm: "2 * length s + 1 < Suc m'" using b(2) m by simp
    show ?thesis unfolding m
      by (rule parse_elements_Suc_fuel[OF _ _ b(1) bm]) (rule va, assumption+, rule el, assumption+)
  qed
  have 3: "parse_members (Suc n) ms s = parse_members m ms s"
    if b: "2 * length s + 1 < Suc n" "2 * length s + 1 < m" for ms s m
  proof -
    obtain m' where m: "m = Suc m'" using b(2) by (cases m) auto
    have bm: "2 * length s + 1 < Suc m'" using b(2) m by simp
    show ?thesis unfolding m
      by (rule parse_members_Suc_fuel[OF _ _ b(1) bm]) (rule va, assumption+, rule me, assumption+)
  qed
  show ?case using 1 2 3 by blast
qed

text \<open>More fuel than \<open>JSON_parse\<close> gives changes nothing: \<open>None\<close> is a syntax error.\<close>

lemma JSON_parse_fuel:
  assumes "2 * length text + 2 \<le> n"
  shows "parse_value n (skip_ws text) = parse_value (2 * length text + 2) (skip_ws text)"
proof -
  have "2 * length (skip_ws text) < n" "2 * length (skip_ws text) < 2 * length text + 2"
    using assms skip_ws_le[of "text"] by auto
  then show ?thesis using parse_fuel by blast
qed

section \<open>Evaluations of the reply parser\<close>

lemmas parse_value_numeral =
  parse_value.simps(2)[where n = "pred_numeral k", folded numeral_eq_Suc] for k

lemmas parse_elements_numeral =
  parse_elements.simps(2)[where n = "pred_numeral k", folded numeral_eq_Suc] for k

lemma replies_not_empty: "six_steps_reply \<noteq> []" "numbered_reply \<noteq> []"
  by (simp_all add: six_steps_reply_def numbered_reply_def js_def)

lemma title_request_method: "b_method title_request = POST"
  by (simp add: title_request_def)

lemma title_subject:
  "resolve_subject (b_body title_request) st = (Inr (None, js ''plan a trip''), st)"
  by (simp add: resolve_subject_def title_request_def trim_def js_def is_ws_def)

lemma six_steps_strict_clean: "strict_clean six_steps_reply = six_steps_reply"
  by (simp add: strict_clean_def six_steps_reply_def js_def trim_def is_ws_def drop_prefix_ws_def
      fence_json_def fence_def drop_fence_end_def upper_ascii_def)

lemma six_steps_JSON:
  "JSON_parse six_steps_reply = Inr (JArr [JStr (js ''a1''), JStr (js ''b2''),
     JStr (js ''c3''), JStr (js ''d4''), JStr (js ''e5''), JStr (js ''f6'')])"
  by (simp add: JSON_parse_def six_steps_reply_def js_def skip_ws_def json_ws_def
      parse_value_numeral parse_elements_numeral)

lemma six_steps_subtasks:
  "clean_subtasks (parse_reply six_steps_reply)
     = Inr [js ''a1'', js ''b2'', js ''c3'', js ''d4'', js ''e5'', js ''f6'']"
  by (simp add: parse_reply_def six_steps_strict_clean six_steps_JSON clean_subtasks_def
      clean_title_def strip_edges_def lead_char_def trail_char_def trim_def is_ws_def js_def)

lemma six_steps_created:
  "http_status (fst (breakdown_handler title_request (env_of six_steps_reply) store_AB)) = 201"
  by (simp add: breakdown_handler_def title_subject env_of_def six_steps_subtasks
      replies_not_empty persist_subtasks_def insert_rows_def issue_def fk_ok_def taskData_def
      store_AB_def successResponse_def title_request_method Let_def)

lemma numbered_strict_clean: "strict_clean numbered_reply = numbered_reply"
  by (simp add: strict_clean_def numbered_reply_def js_def trim_def is_ws_def drop_prefix_ws_def
      fence_json_def fence_def drop_fence_end_def upper_ascii_def)

text \<open>The numbered lines are no JSON text, whatever the fuel.\<close>

lemma numbered_no_value: "parse_value n (skip_ws numbered_reply) = None"
  by (cases n)
     (simp_all add: numbered_reply_def js_def skip_ws_def json_ws_def parse_number_def
        is_digit_def parse_fraction_def)

lemma numbered_JSON: "JSON_parse numbered_reply = Inl SyntaxError"
  by (simp add: JSON_parse_def numbered_no_value)

lemma numbered_match: "match_array numbered_reply = None"
  by (simp add: match_array_def numbered_reply_def js_def)

lemma numbered_parse_reply: "parse_reply numbered_reply = JArr []"
  by (simp add: parse_reply_def numbered_strict_clean numbered_JSON extract_array_def
      numbered_match)

lemma numbered_split:
  "split_lines numbered_reply = [js ''1. Do X'', js ''2. Do Y'', js ''3. Do Z'']"
  by (simp add: numbered_reply_def js_def)

lemma numbered_line_heuristic:
  "line_heuristic numbered_reply = [js ''. Do X'', js ''. Do Y'', js ''. Do Z'']"
  unfolding line_heuristic_def numbered_split
  by (simp add: js_def trim_def is_ws_def is_header_def fence_def upper_ascii_def
      strip_edges_def lead_char_def trail_char_def strip_marker_def marker_char_def
      is_digit_def only_brackets_def Let_def)

section \<open>The validators against the rules\<close>







section \<open>What the breakdown handler persists\<close>

lemma issue_keeps:
  "issue c st = (f, st') \<Longrightarrow> next_id st' = next_id st \<and> clock st' = clock st"
  by (auto simp: issue_def split: list.splits)

lemma issue_no_fault:
  "faults st = [] \<Longrightarrow> issue c st = (None, st\<lparr>calls := calls st @ [c]\<rparr>)"
  by (simp add: issue_def)

lemma insert_rows_result:
  assumes "insert_rows ns st = (Inr created, st')"
  shows "created = new_rows (next_id st) (clock st) ns
       \<and> rows st' = rows st @ created
       \<and> calls st' = calls st @ [Insert_call ns]"
proof -
  obtain f s1 where i: "issue (Insert_call ns) st = (f, s1)"
    by (cases "issue (Insert_call ns) st")
  have k: "next_id s1 = next_id st" "clock s1 = clock st"
    using issue_keeps[OF i] by auto
  have e: "rows s1 = rows st" "calls s1 = calls st @ [Insert_call ns]"
    using issue_effect[OF i] by auto
  show ?thesis using assms i k e
    by (auto simp: insert_rows_def Let_def split: option.splits if_splits)
qed

lemma map_title_new_rows: "map title (new_rows i t ns) = map n_title ns"
  by (induction ns arbitrary: i) auto

lemma titles_of_taskData: "map n_title (map (taskData fid ft) xs) = map trim xs"
  by (simp add: taskData_def)

lemma persist_subtasks_created:
  assumes "persist_subtasks fid ft subtasks st = (resp, st')" and "http_status resp = 201"
  shows "3 \<le> length subtasks
       \<and> resp = successResponse
            (new_rows (next_id st) (clock st) (map (taskData fid ft) (take 5 subtasks))) 201
       \<and> rows st' = rows st
            @ new_rows (next_id st) (clock st) (map (taskData fid ft) (take 5 subtasks))
       \<and> issued st st' = [Insert_call (map (taskData fid ft) (take 5 subtasks))]"
proof -
  let ?ns = "map (taskData fid ft) (take 5 subtasks)"
  have n3: "3 \<le> length subtasks"
    using assms by (auto simp: persist_subtasks_def errorResponse_def split: if_splits)
  obtain r s1 where ins: "insert_rows ?ns st = (r, s1)"
    by (cases "insert_rows ?ns st")
  have ne: "subtasks \<noteq> []" "\<not> length subtasks < 3" using n3 by auto
  have eq: "persist_subtasks fid ft subtasks st =
      (case r of Inl e \<Rightarrow> (errorResponse (Insert_failed e) 500, s1)
               | Inr c \<Rightarrow> (successResponse c 201, s1))"
    using ne ins by (simp add: persist_subtasks_def Let_def)
  have "\<exists>created. r = Inr created \<and> resp = successResponse created 201 \<and> st' = s1"
    using assms eq by (cases r) (auto simp: errorResponse_def)
  then obtain created where c: "r = Inr created" "resp = successResponse created 201" "st' = s1"
    by blast
  note res = insert_rows_result[OF ins[unfolded c(1)]]
  show ?thesis using n3 c res by (simp add: issued_def)
qed

lemma persist_subtasks_few:
  "length subtasks < 3 \<Longrightarrow>
     persist_subtasks fid ft subtasks st
       = (errorResponse (if length subtasks = 0 then No_valid_subtasks
                         else Too_few_subtasks (length subtasks)) 400, st)"
  by (simp add: persist_subtasks_def)

lemma fk_ok_taskData:
  "fk_ok fid rs \<Longrightarrow> \<not> (\<exists>n \<in> set (map (taskData fid ft) xs). \<not> fk_ok (n_parent_id n) rs)"
  by (auto simp: taskData_def)

lemma persist_subtasks_enough:
  assumes "3 \<le> length subtasks" and "faults st = []" and "fk_ok fid (rows st)"
  shows "fst (persist_subtasks fid ft subtasks st)
           = successResponse
               (new_rows (next_id st) (clock st) (map (taskData fid ft) (take 5 subtasks))) 201
       \<and> rows (snd (persist_subtasks fid ft subtasks st)) = rows st
            @ new_rows (next_id st) (clock st) (map (taskData fid ft) (take 5 subtasks))"
proof -
  have ne: "subtasks \<noteq> []" "\<not> length subtasks < 3" using assms(1) by auto
  show ?thesis
    using ne assms(2) fk_ok_taskData[OF assms(3), of ft "take 5 subtasks"]
    by (simp add: persist_subtasks_def insert_rows_def issue_no_fault Let_def)
qed

lemma issue_rows_snd: "rows (snd (issue c st)) = rows st"
  by (simp add: issue_def split: list.splits)

lemma resolve_subject_rows:
  "resolve_subject b st = (r, st') \<Longrightarrow> rows st' = rows st"
  by (auto simp: resolve_subject_def select_by_number_def Let_def issue_rows_snd
      dest!: select_single_effect
      split: if_splits option.splits prod.splits sum.splits jsval.splits)

lemma select_single_member:
  assumes "select_single k st = (Inr r, st')"
  shows "k \<in> set (map task_id (rows st'))"
proof -
  have "filter (\<lambda>r. task_id r = k) (rows st) = [r]" using assms by (rule select_single_found)
  then have "r \<in> set (filter (\<lambda>r. task_id r = k) (rows st))" by simp
  then have "r \<in> set (rows st) \<and> task_id r = k" by simp
  moreover have "rows st' = rows st" using select_single_effect[OF assms] by simp
  ultimately show ?thesis by force
qed

lemma resolve_subject_fk:
  assumes "resolve_subject b st = (Inr (fid, ft), s1)"
  shows "fk_ok fid (rows s1)"
proof (cases fid)
  case None
  then show ?thesis by (simp add: fk_ok_def)
next
  case (Some k)
  have "\<exists>r. select_single k st = (Inr r, s1)"
    using assms Some
    by (auto simp: resolve_subject_def select_by_number_def Let_def
        split: if_splits option.splits prod.splits sum.splits jsval.splits)
  then show ?thesis using Some select_single_member by (fastforce simp: fk_ok_def)
qed

lemma two_steps_strict_clean: "strict_clean two_steps_reply = two_steps_reply"
  by (simp add: strict_clean_def two_steps_reply_def js_def trim_def is_ws_def drop_prefix_ws_def
      fence_json_def fence_def drop_fence_end_def upper_ascii_def)

lemma two_steps_JSON:
  "JSON_parse two_steps_reply = Inr (JArr [JStr (js ''a1''), JStr (js ''b2'')])"
  by (simp add: JSON_parse_def two_steps_reply_def js_def skip_ws_def json_ws_def
      parse_value_numeral parse_elements_numeral)

lemma two_steps_subtasks:
  "clean_subtasks (parse_reply two_steps_reply) = Inr [js ''a1'', js ''b2'']"
  by (simp add: parse_reply_def two_steps_strict_clean two_steps_JSON clean_subtasks_def
      clean_title_def strip_edges_def lead_char_def trail_char_def trim_def is_ws_def js_def)

lemma two_steps_not_empty: "two_steps_reply \<noteq> []"
  by (simp add: two_steps_reply_def js_def)

lemma env_of_simps: "api_key (env_of r)" "ai (env_of r) t = Ai_content (Some r)"
  by (simp_all add: env_of_def)



section \<open>The answers to an id and to a deletion\<close>

text \<open>
  An id for which \<open>parseInt\<close> gives \<open>NaN\<close> or a number that is not positive, and an id
  that is missing, repeated or empty, is answered 400 without a call of the store.
\<close>

lemma invalid_id_rejected:
  assumes "query_id req = Absent \<or> (\<exists>ss. query_id req = Multiple ss) \<or>
           (\<exists>s. query_id req = Single s \<and>
                (s = [] \<or> parseInt s = None \<or> (\<exists>n. parseInt s = Some n \<and> n \<le> 0)))"
  shows "handler req st = (errorResponse Invalid_id 400, st)"
  using assms by (auto simp: handler_def validateId_def)

text \<open>
  DELETE answers 404 and changes no row when no row has the id. When exactly one row
  has it and the store does not fail, the row is gone and \<open>deleted\<close> holds its id and
  title.
\<close>

lemma delete_returns_id_and_title:
  assumes "validateId (query_id req) = Some k"
      and "req_method req = DELETE"
  shows "(filter (\<lambda>r. task_id r = k) (rows st) = [] \<longrightarrow>
            http_status (fst (handler req st)) = 404
          \<and> success (fst (handler req st)) = False
          \<and> rows (snd (handler req st)) = rows st)
       \<and> (filter (\<lambda>r. task_id r = k) (rows st) = [t] \<and> faults st = [] \<longrightarrow>
            fst (handler req st) = successResponse (Deleted_task k (title t)) 200
          \<and> (\<forall>r \<in> set (rows (snd (handler req st))). task_id r \<noteq> k)
          \<and> set (rows (snd (handler req st))) \<subseteq> set (rows st))"
proof -
  have h: "handler req st = handler_DELETE k st" using assms by (simp add: handler_def)
  have absent: "filter (\<lambda>r. task_id r = k) (rows st) = [] \<longrightarrow>
           http_status (fst (handler req st)) = 404
         \<and> success (fst (handler req st)) = False
         \<and> rows (snd (handler req st)) = rows st"
    unfolding h
    by (auto simp: handler_DELETE_def select_single_def issue_def errorResponse_def
        split: list.splits option.splits)
  have present: "filter (\<lambda>r. task_id r = k) (rows st) = [t] \<and> faults st = [] \<longrightarrow>
           fst (handler req st) = successResponse (Deleted_task k (title t)) 200
         \<and> (\<forall>r \<in> set (rows (snd (handler req st))). task_id r \<noteq> k)
         \<and> set (rows (snd (handler req st))) \<subseteq> set (rows st)"
  proof
    assume a: "filter (\<lambda>r. task_id r = k) (rows st) = [t] \<and> faults st = []"
    then have "t \<in> set (filter (\<lambda>r. task_id r = k) (rows st))" by simp
    then have tk: "task_id t = k" by simp
    have r: "handler_DELETE k st = (successResponse (Deleted_task k (title t)) 200,
        st\<lparr>calls := calls st @ [Select_single k, Delete_call k],
           rows := cascade [k] (filter (\<lambda>r. task_id r \<noteq> k) (rows st))\<rparr>)"
      using a tk by (simp add: handler_DELETE_def select_single_def delete_rows_def issue_def)
    have "set (cascade [k] (filter (\<lambda>r. task_id r \<noteq> k) (rows st)))
            \<subseteq> set (filter (\<lambda>r. task_id r \<noteq> k) (rows st))"
      by (rule cascade_subset)
    then show "fst (handler req st) = successResponse (Deleted_task k (title t)) 200
         \<and> (\<forall>r \<in> set (rows (snd (handler req st))). task_id r \<noteq> k)
         \<and> set (rows (snd (handler req st))) \<subseteq> set (rows st)"
      unfolding h r by auto
  qed
  show ?thesis using absent present by blast
qed

lemma cascade_Nil: "cascade dead [] = []"
  by (subst cascade.simps) simp

section \<open>The claims\<close>

text \<open>
  C1. A breakdown request is answered 201 only when the reply that the model gave for
  the subject of this request yields, after parsing and cleaning, at least three
  titles; the rows returned are then the rows inserted, one per title up to the
  fifth, in order, so between three and five. With fewer than three titles the
  answer is 400 and nothing is inserted, whichever layer of the parser read them;
  with three or more and a store that does not fail, the answer is 201.
\<close>

theorem breakdown_creates_three_to_five:
  assumes "breakdown_handler req env st = (resp, st')"
  shows "(http_status resp = 201 \<longrightarrow>
            (\<exists>finalTaskId finalTaskTitle s1 aiResponse subtasks created.
                resolve_subject (b_body req) st = (Inr (finalTaskId, finalTaskTitle), s1)
              \<and> ai env finalTaskTitle = Ai_content (Some aiResponse)
              \<and> clean_subtasks (parse_reply aiResponse) = Inr subtasks
              \<and> 3 \<le> length subtasks
              \<and> data resp = Some created
              \<and> created = new_rows (next_id s1) (clock s1)
                    (map (taskData finalTaskId finalTaskTitle) (take 5 subtasks))
              \<and> map title created = map trim (take 5 subtasks)
              \<and> 3 \<le> length created \<and> length created \<le> 5
              \<and> rows st' = rows st @ created
              \<and> issued s1 st'
                    = [Insert_call (map (taskData finalTaskId finalTaskTitle) (take 5 subtasks))]))
       \<and> (b_method req = POST
            \<and> resolve_subject (b_body req) st = (Inr (fid, ft), s2)
            \<and> api_key env
            \<and> ai env ft = Ai_content (Some reply) \<and> reply \<noteq> []
            \<and> clean_subtasks (parse_reply reply) = Inr titles \<longrightarrow>
              (length titles < 3 \<longrightarrow>
                 http_status resp = 400 \<and> success resp = False \<and> data resp = None \<and> st' = s2)
            \<and> (3 \<le> length titles \<and> faults s2 = [] \<longrightarrow>
                 http_status resp = 201
               \<and> data resp = Some (new_rows (next_id s2) (clock s2)
                                     (map (taskData fid ft) (take 5 titles)))))"
proof -
  have first: "\<exists>finalTaskId finalTaskTitle s1 aiResponse subtasks created.
                resolve_subject (b_body req) st = (Inr (finalTaskId, finalTaskTitle), s1)
              \<and> ai env finalTaskTitle = Ai_content (Some aiResponse)
              \<and> clean_subtasks (parse_reply aiResponse) = Inr subtasks
              \<and> 3 \<le> length subtasks
              \<and> data resp = Some created
              \<and> created = new_rows (next_id s1) (clock s1)
                    (map (taskData finalTaskId finalTaskTitle) (take 5 subtasks))
              \<and> map title created = map trim (take 5 subtasks)
              \<and> 3 \<le> length created \<and> length created \<le> 5
              \<and> rows st' = rows st @ created
              \<and> issued s1 st'
                    = [Insert_call (map (taskData finalTaskId finalTaskTitle) (take 5 subtasks))]"
    if ok: "http_status resp = 201"
  proof -
    have post: "b_method req = POST"
      using assms ok by (auto simp: breakdown_handler_def errorResponse_def split: if_splits)
    obtain subject s1 where rs: "resolve_subject (b_body req) st = (subject, s1)"
      by (cases "resolve_subject (b_body req) st")
    have "\<exists>i t. subject = Inr (i, t)"
      using assms ok post rs resolve_subject_not_201[of "b_body req" st _ s1]
      by (cases subject) (auto simp: breakdown_handler_def)
    then obtain i t where sj: "subject = Inr (i, t)" by blast
    have "\<exists>aiResponse subtasks. ai env t = Ai_content (Some aiResponse)
          \<and> clean_subtasks (parse_reply aiResponse) = Inr subtasks
          \<and> persist_subtasks i t subtasks s1 = (resp, st')"
      using assms ok post rs sj
      by (auto simp: breakdown_handler_def errorResponse_def
          split: if_splits ai_outcome.splits option.splits sum.splits)
    then obtain aiResponse subtasks where
        ai: "ai env t = Ai_content (Some aiResponse)"
        and cs: "clean_subtasks (parse_reply aiResponse) = Inr subtasks"
        and ps: "persist_subtasks i t subtasks s1 = (resp, st')" by blast
    let ?created = "new_rows (next_id s1) (clock s1) (map (taskData i t) (take 5 subtasks))"
    note p = persist_subtasks_created[OF ps ok]
    have d: "data resp = Some ?created" using p by (simp add: successResponse_def)
    have ti: "map title ?created = map trim (take 5 subtasks)"
      by (simp add: map_title_new_rows taskData_def)
    have le: "3 \<le> length ?created \<and> length ?created \<le> 5"
      using p by (simp add: length_new_rows)
    have rw: "rows st' = rows st @ ?created"
      using p resolve_subject_rows[OF rs] by simp
    show ?thesis using rs sj ai cs p d ti le rw by blast
  qed
  have second: "(length titles < 3 \<longrightarrow>
                 http_status resp = 400 \<and> success resp = False \<and> data resp = None \<and> st' = s2)
            \<and> (3 \<le> length titles \<and> faults s2 = [] \<longrightarrow>
                 http_status resp = 201
               \<and> data resp = Some (new_rows (next_id s2) (clock s2)
                                     (map (taskData fid ft) (take 5 titles))))"
    if h: "b_method req = POST" "resolve_subject (b_body req) st = (Inr (fid, ft), s2)"
       "api_key env" "ai env ft = Ai_content (Some reply)" "reply \<noteq> []"
       "clean_subtasks (parse_reply reply) = Inr titles"
  proof -
    have eq: "(resp, st') = persist_subtasks fid ft titles s2"
      using assms h by (simp add: breakdown_handler_def)
    have few: "http_status resp = 400 \<and> success resp = False \<and> data resp = None \<and> st' = s2"
      if "length titles < 3"
      using eq persist_subtasks_few[OF that, of fid ft s2] by (auto simp: errorResponse_def)
    have enough: "http_status resp = 201
               \<and> data resp = Some (new_rows (next_id s2) (clock s2)
                                     (map (taskData fid ft) (take 5 titles)))"
      if "3 \<le> length titles" "faults s2 = []"
    proof -
      have "fst (persist_subtasks fid ft titles s2) = resp" using eq by (metis fst_conv)
      then show ?thesis
        using persist_subtasks_enough[OF that resolve_subject_fk[OF h(2)], of ft]
        by (auto simp: successResponse_def)
    qed
    show ?thesis using few enough by blast
  qed
  show ?thesis using first second by blast
qed

theorem breakdown_creates_three_to_five_witness:
  "http_status (fst (breakdown_handler title_request (env_of six_steps_reply) store_AB)) = 201
   \<and> data (fst (breakdown_handler title_request (env_of six_steps_reply) store_AB))
       = Some (new_rows 3 2 (map (taskData None (js ''plan a trip''))
                 [js ''a1'', js ''b2'', js ''c3'', js ''d4'', js ''e5'']))
   \<and> http_status (fst (breakdown_handler title_request (env_of two_steps_reply) store_AB)) = 400
   \<and> snd (breakdown_handler title_request (env_of two_steps_reply) store_AB) = store_AB"
proof -
  obtain r6 s6 where
    h6: "breakdown_handler title_request (env_of six_steps_reply) store_AB = (r6, s6)"
    by (cases "breakdown_handler title_request (env_of six_steps_reply) store_AB")
  obtain r2 s2 where
    h2: "breakdown_handler title_request (env_of two_steps_reply) store_AB = (r2, s2)"
    by (cases "breakdown_handler title_request (env_of two_steps_reply) store_AB")
  have f: "faults store_AB = []" "next_id store_AB = 3" "clock store_AB = 2"
    by (simp_all add: store_AB_def)
  have six: "http_status r6 = 201
      \<and> data r6 = Some (new_rows (next_id store_AB) (clock store_AB)
           (map (taskData None (js ''plan a trip''))
              (take 5 [js ''a1'', js ''b2'', js ''c3'', js ''d4'', js ''e5'', js ''f6''])))"
    using breakdown_creates_three_to_five [OF h6, THEN conjunct2,
        of None "js ''plan a trip''" store_AB six_steps_reply
           "[js ''a1'', js ''b2'', js ''c3'', js ''d4'', js ''e5'', js ''f6'']"]
      title_request_method title_subject env_of_simps replies_not_empty six_steps_subtasks f(1)
    by simp
  have two: "http_status r2 = 400 \<and> s2 = store_AB"
    using breakdown_creates_three_to_five [OF h2, THEN conjunct2,
        of None "js ''plan a trip''" store_AB two_steps_reply "[js ''a1'', js ''b2'']"]
      title_request_method title_subject env_of_simps two_steps_not_empty two_steps_subtasks
    by simp
  show ?thesis using six two h6 h2 f by simp
qed

text \<open>
  C2. A PATCH whose payload sets \<open>parent_id\<close> to the id of the task itself is answered
  with status 400 and \<open>success: false\<close>, whatever the other fields of the payload are, and
  the store is left exactly as it was: not even a read is issued.
\<close>

theorem patch_self_parent_rejected:
  assumes "validateId (query_id req) = Some k"
      and "req_method req = PATCH"
      and "field (body req) (js ''parent_id'') = JNum (of_int k)"
  shows "http_status (fst (handler req st)) = 400
       \<and> success (fst (handler req st)) = False
       \<and> snd (handler req st) = st"
proof -
  obtain errs upd where v: "validateUpdateRequest (body req) = Inr (errs, upd)"
    and p: "u_parent_id upd = Some (Some k)"
    using integer_parent_reaches_updateData[OF assms(3)] by blast
  have "handler req st = handler_PATCH k (body req) st"
    using assms(1,2) by (simp add: handler_def)
  moreover have "http_status (fst (handler_PATCH k (body req) st)) = 400
       \<and> success (fst (handler_PATCH k (body req) st)) = False
       \<and> snd (handler_PATCH k (body req) st) = st"
    using v p by (simp add: handler_PATCH_def errorResponse_def)
  ultimately show ?thesis by simp
qed

theorem patch_self_parent_rejected_witness:
  "validateId (Single (js ''1'')) = Some 1
   \<and> field (JObj [(js ''title'', JStr (js ''renamed'')), (js ''parent_id'', JNum 1)])
        (js ''parent_id'') = JNum (of_int 1)
   \<and> http_status (fst (handler \<lparr>req_method = PATCH, query_id = Single (js ''1''),
        body = JObj [(js ''title'', JStr (js ''renamed'')), (js ''parent_id'', JNum 1)]\<rparr>
        store_AB)) = 400
   \<and> snd (handler \<lparr>req_method = PATCH, query_id = Single (js ''1''),
        body = JObj [(js ''title'', JStr (js ''renamed'')), (js ''parent_id'', JNum 1)]\<rparr>
        store_AB) = store_AB"
  using patch_self_parent_rejected [of "\<lparr>req_method = PATCH, query_id = Single (js ''1''),
        body = JObj [(js ''title'', JStr (js ''renamed'')), (js ''parent_id'', JNum 1)]\<rparr>"
        1 store_AB]
  by (simp add: validateId_1 js_inject)

text \<open>
  C3. When a row B of the store has \<open>parent_id = a\<close> and the ids of the store are
  positive, a PATCH of task \<open>a\<close> that sets \<open>parent_id\<close> to the id of B is answered with
  status 400 and \<open>success: false\<close>; the rows are unchanged and no write is issued, so the
  update cannot close a cycle of two tasks.
\<close>

theorem patch_two_cycle_rejected:
  assumes "validateId (query_id req) = Some a"
      and "req_method req = PATCH"
      and "B \<in> set (rows st)"
      and "parent_id B = Some a"
      and "0 < task_id B"
      and "field (body req) (js ''parent_id'') = JNum (of_int (task_id B))"
  shows "http_status (fst (handler req st)) = 400
       \<and> success (fst (handler req st)) = False
       \<and> rows (snd (handler req st)) = rows st
       \<and> filter is_write (issued st (snd (handler req st))) = []"
proof -
  obtain errs upd where v: "validateUpdateRequest (body req) = Inr (errs, upd)"
    and p: "u_parent_id upd = Some (Some (task_id B))"
    using integer_parent_reaches_updateData[OF assms(6)] by blast
  have h: "handler req st = handler_PATCH a (body req) st"
    using assms(1,2) by (simp add: handler_def)
  have nk: "\<not> no_keys upd" using p by (simp add: no_keys_def)
  show ?thesis
  proof (cases "errs \<noteq> [] \<or> task_id B = a")
    case True
    then show ?thesis unfolding h using v p nk
      by (auto simp: handler_PATCH_def errorResponse_def issued_def)
  next
    case False
    obtain r s1 where ss: "select_single (task_id B) st = (r, s1)"
      by (cases "select_single (task_id B) st")
    have eff: "rows s1 = rows st" "calls s1 = calls st @ [Select_single (task_id B)]"
      using select_single_effect[OF ss] by auto
    have cyc: "parent_id pt = Some a" if "r = Inr pt" for pt
    proof -
      have "filter (\<lambda>r. task_id r = task_id B) (rows st) = [pt]"
        using select_single_found ss that by blast
      moreover have "B \<in> set (filter (\<lambda>r. task_id r = task_id B) (rows st))"
        using assms(3) by simp
      ultimately have "B = pt" by simp
      then show ?thesis using assms(4) by simp
    qed
    have "\<exists>e. handler_PATCH a (body req) st = (errorResponse e 400, s1)"
      using v p nk False ss assms(5) cyc
      by (auto simp: handler_PATCH_def split: sum.splits)
    then show ?thesis unfolding h using eff by (auto simp: errorResponse_def issued_def)
  qed
qed

theorem patch_two_cycle_rejected_witness:
  "row 2 ''B'' (Some 1) 1 \<in> set (rows store_AB)
   \<and> parent_id (row 2 ''B'' (Some 1) 1) = Some 1
   \<and> http_status (fst (handler \<lparr>req_method = PATCH, query_id = Single (js ''1''),
        body = JObj [(js ''parent_id'', JNum 2)]\<rparr> store_AB)) = 400
   \<and> rows (snd (handler \<lparr>req_method = PATCH, query_id = Single (js ''1''),
        body = JObj [(js ''parent_id'', JNum 2)]\<rparr> store_AB)) = rows store_AB"
  using patch_two_cycle_rejected [of "\<lparr>req_method = PATCH, query_id = Single (js ''1''),
       body = JObj [(js ''parent_id'', JNum 2)]\<rparr>" 1 "row 2 ''B'' (Some 1) 1" store_AB]
  by (simp add: validateId_1 store_AB_def row_def)



text \<open>
  C5, as the code has it. When \<open>parent_id\<close> is present and not null, the create validator
  and the update validator report a \<open>parent_id\<close> error exactly when the value is not an
  integer number (not a number, or a number with a fractional part). Zero and negative
  integers pass validation.
\<close>

theorem parent_id_must_be_integer:
  assumes "field b (js ''parent_id'') = v"
      and "v \<noteq> JUndefined"
      and "v \<noteq> JNull"
  shows "(\<exists>errors. validateCreateRequest b = Inr errors
            \<and> (Parent_id_not_integer \<in> set errors \<longleftrightarrow> not_integer_number v))
       \<and> (\<exists>errors upd. validateUpdateRequest b = Inr (errors, upd)
            \<and> (Parent_id_not_integer_or_null \<in> set errors \<longleftrightarrow> not_integer_number v))"
proof -
  have nn: "\<not> nullish b" using assms(1,2) field_not_nullish[of b "js ''parent_id''"] by simp
  have "Parent_id_not_integer \<in> set (create_parent_id b (create_priority b (create_status b
          (create_description b (create_title b []))))) \<longleftrightarrow> not_integer_number v"
    using assms by (simp add: create_parent_id_mem create_other_no_parent_msg)
  moreover have "Parent_id_not_integer_or_null \<in> set (fst (update_parent_id b (update_priority b
          (update_status b (update_description b (update_title b ([], empty_update)))))))
        \<longleftrightarrow> not_integer_number v"
    using assms by (simp add: update_parent_id_mem update_other_no_parent_msg)
  moreover have "validateUpdateRequest b =
     Inr (fst (update_parent_id b (update_priority b (update_status b (update_description b
           (update_title b ([], empty_update)))))),
          snd (update_parent_id b (update_priority b (update_status b (update_description b
           (update_title b ([], empty_update)))))))"
    using validateUpdate_Inr[OF nn] by simp
  ultimately show ?thesis using validateCreate_Inr[OF nn] by blast
qed

theorem parent_id_must_be_integer_witness:
  "field body_parent_half (js ''parent_id'') = JNum (1 / 2)
   \<and> (\<exists>errors. validateCreateRequest body_parent_half = Inr errors
          \<and> Parent_id_not_integer \<in> set errors)
   \<and> (\<exists>errors upd. validateUpdateRequest body_parent_half = Inr (errors, upd)
          \<and> Parent_id_not_integer_or_null \<in> set errors)"
  using parent_id_must_be_integer [of body_parent_half "JNum (1 / 2)"]
  by (simp add: body_parent_half_def js_def not_integer_number_simps isInteger_half)

text \<open>
  The claim as stated fails: with \<open>parent_id\<close> zero or \<open>-5\<close> and a valid title, both
  validators return no error at all.
\<close>

theorem non_positive_parent_id_counterexample:
  "validateCreateRequest body_parent_zero = Inr []
   \<and> validateCreateRequest body_parent_negative = Inr []
   \<and> map_sum id fst (validateUpdateRequest body_parent_zero) = Inr []
   \<and> map_sum id fst (validateUpdateRequest body_parent_negative) = Inr []"
  by (simp add: body_parent_zero_def body_parent_negative_def validateCreateRequest_def
      validateUpdateRequest_def create_title_def create_description_def create_status_def
      create_priority_def create_parent_id_def update_title_def update_description_def
      update_status_def update_priority_def update_parent_id_def js_def trim_def is_ws_def
      not_integer_number_def isInteger_def empty_update_def)

text \<open>
  C6. The reply of the three numbered lines \<open>1. Do X\<close>, \<open>2. Do Y\<close>, \<open>3. Do Z\<close> should give
  the three steps \<open>Do X\<close>, \<open>Do Y\<close>, \<open>Do Z\<close> through the line heuristic. The code does
  not: the strict layer throws, the reply has no bracketed substring, so the second
  layer assigns nothing and does not throw, the line heuristic is not run, and the
  request is answered 400 with no subtask. Run on its own, the line heuristic gives
  \<open>. Do X\<close>, \<open>. Do Y\<close>, \<open>. Do Z\<close>, since it removes one marker character only.
\<close>

theorem numbered_lines_reply_yields_nothing:
  "JSON_parse (strict_clean numbered_reply) = Inl SyntaxError
   \<and> match_array numbered_reply = None
   \<and> parse_reply numbered_reply = JArr []
   \<and> line_heuristic numbered_reply = [js ''. Do X'', js ''. Do Y'', js ''. Do Z'']
   \<and> breakdown_handler title_request (env_of numbered_reply) store_AB
       = (errorResponse No_valid_subtasks 400, store_AB)"
  by (simp add: numbered_strict_clean numbered_JSON numbered_match numbered_parse_reply
      numbered_line_heuristic breakdown_handler_def title_subject env_of_def
      replies_not_empty clean_subtasks_def persist_subtasks_def title_request_method)

text \<open>
  C7. An id that is not the decimal representation of a positive integer should be
  answered 400 before any access to the store; the message of the handler says that
  the id must be a positive integer. For \<open>12abc\<close> the code does not: \<open>parseInt\<close> reads the
  digits and drops the rest, so GET reads task 12 and its children and answers 200,
  and DELETE removes task 12.
\<close>

theorem id_with_trailing_characters_accepted:
  "validateId (Single (js ''12abc'')) = Some 12
   \<and> http_status (fst (handler \<lparr>req_method = GET, query_id = Single (js ''12abc''),
        body = JUndefined\<rparr> store_12)) = 200
   \<and> calls (snd (handler \<lparr>req_method = GET, query_id = Single (js ''12abc''),
        body = JUndefined\<rparr> store_12)) = [Select_single 12, Select_children 12]
   \<and> http_status (fst (handler \<lparr>req_method = DELETE, query_id = Single (js ''12abc''),
        body = JUndefined\<rparr> store_12)) = 200
   \<and> rows (snd (handler \<lparr>req_method = DELETE, query_id = Single (js ''12abc''),
        body = JUndefined\<rparr> store_12)) = []"
  by (simp add: handler_def validateId_def parseInt_12abc handler_GET_def handler_DELETE_def
      select_single_def select_children_def delete_rows_def issue_def store_12_def row_def
      successResponse_def js_Cons_neq cascade_Nil)

text \<open>
  C8. DELETE should return in \<open>deleted\<close> the complete task as it was before the deletion;
  the handler declares \<open>deleted\<close> as a task. The code does not: the existence check
  selects the columns \<open>id\<close> and \<open>title\<close> only and its result is what is returned. Two
  rows with the same id and title and different description, status, priority and
  creation time give the same response.
\<close>

theorem delete_answers_id_and_title_only:
  "fst (handler \<lparr>req_method = DELETE, query_id = Single (js ''1''), body = JUndefined\<rparr>
        store_plain)
     = fst (handler \<lparr>req_method = DELETE, query_id = Single (js ''1''), body = JUndefined\<rparr>
         store_rich)
   \<and> data (fst (handler \<lparr>req_method = DELETE, query_id = Single (js ''1''),
         body = JUndefined\<rparr> store_rich)) = Some (Deleted_task 1 (js ''A''))
   \<and> status (hd (rows store_rich)) = completed
   \<and> status (hd (rows store_plain)) = pending
   \<and> description (hd (rows store_rich)) = Some (js ''notes'')"
  by (simp add: handler_def validateId_1 handler_DELETE_def select_single_def delete_rows_def
      issue_def store_plain_def store_rich_def row_def successResponse_def)

text \<open>
  C9. In GET, when the fetch of the task succeeds and the query for its children
  fails, the error is dropped: the answer is 200 with \<open>success: true\<close>, the task, and an
  empty list of subtasks.
\<close>

theorem get_ignores_children_error:
  assumes "validateId (query_id req) = Some k"
      and "req_method req = GET"
      and "filter (\<lambda>r. task_id r = k) (rows st) = [t]"
      and "faults st = None # Some m # fs"
  shows "fst (handler req st) = successResponse (Task_with_subtasks t []) 200"
  using assms
  by (simp add: handler_def handler_GET_def select_single_def select_children_def issue_def)

theorem get_ignores_children_error_witness:
  "filter (\<lambda>r. task_id r = 1) (rows store_AB) = [row 1 ''A'' None 0]
   \<and> fst (handler \<lparr>req_method = GET, query_id = Single (js ''1''), body = JUndefined\<rparr>
        (store_AB\<lparr>faults := [None, Some ''connection reset'']\<rparr>))
   = successResponse (Task_with_subtasks (row 1 ''A'' None 0) []) 200"
  using get_ignores_children_error
     [of "\<lparr>req_method = GET, query_id = Single (js ''1''), body = JUndefined\<rparr>" 1
         "store_AB\<lparr>faults := [None, Some ''connection reset'']\<rparr>" "row 1 ''A'' None 0"
         "''connection reset''" "[]"]
  by (simp add: validateId_1 store_AB_def row_def)

text \<open>
  C10. Whenever a PATCH is answered with status 400, for whichever reason, the rows
  of the store are unchanged and no write call has been issued: every 400 is returned
  before the update call.
\<close>

theorem patch_rejection_atomic:
  assumes "req_method req = PATCH"
      and "handler req st = (resp, st')"
      and "http_status resp = 400"
  shows "rows st' = rows st \<and> filter is_write (issued st st') = []"
proof (cases "validateId (query_id req)")
  case None
  then have "st' = st" using assms by (simp add: handler_def)
  then show ?thesis by (simp add: issued_def)
next
  case (Some k)
  then have "handler_PATCH k (body req) st = (resp, st')"
    using assms by (simp add: handler_def)
  then show ?thesis using handler_PATCH_400 assms(3) by blast
qed

theorem patch_rejection_atomic_witness:
  "handler \<lparr>req_method = PATCH, query_id = Single (js ''1''),
       body = JObj [(js ''parent_id'', JNum 99)]\<rparr> store_AB
     = (errorResponse Parent_not_found 400, store_AB\<lparr>calls := [Select_single 99]\<rparr>)
   \<and> rows (store_AB\<lparr>calls := [Select_single 99]\<rparr>) = rows store_AB
   \<and> filter is_write (issued store_AB (store_AB\<lparr>calls := [Select_single 99]\<rparr>)) = []"
  using patch_rejection_atomic [of "\<lparr>req_method = PATCH, query_id = Single (js ''1''),
       body = JObj [(js ''parent_id'', JNum 99)]\<rparr>" store_AB
       "errorResponse Parent_not_found 400" "store_AB\<lparr>calls := [Select_single 99]\<rparr>"]
  by (simp add: patch_missing_parent errorResponse_def)
end
